theory Spec2Isabelle
  imports Complex_Main "HOL-Library.AList" "HOL-Library.Product_Lexorder"
begin

section \<open>Python and numpy primitives used by the notebook\<close>

text \<open>
  The development embeds the functions of \<^verbatim>\<open>data_processing_EHR_FM.ipynb\<close>:
  \<^verbatim>\<open>calculate_mace_outcomes\<close>, \<^verbatim>\<open>create_vocabulary\<close>, \<^verbatim>\<open>tokenize_patient_data\<close>,
  \<^verbatim>\<open>process_patient_data\<close> and the mortality cell that follows the call of the latter.

  Conventions of the model.
  \<^item> A data frame is the list of its rows, in row order. Person ids, concept ids and event
    dates are present in every row of the event table; index dates, outcome dates, exposure
    dates and death dates may be missing. The index-date table and the outcome table also
    carry the dtype of their date column, on which the subtraction of the two columns depends.
  \<^item> A time stamp (the result of \<^verbatim>\<open>pd.to_datetime\<close>) is an integer number of seconds; a
    missing one (\<^verbatim>\<open>NaT\<close>) is \<open>None\<close>. At this resolution the float arithmetic of the
    notebook (\<^verbatim>\<open>total_seconds() / (24 * 3600)\<close>, day counts stored as float32 and compared
    with 7, 365 and 0) decides every comparison as exact arithmetic does.
  \<^item> A Python \<^verbatim>\<open>dict\<close> is an association list with distinct keys in insertion order.
  \<^item> Exceptions are values of \<open>py_error\<close>.
\<close>

datatype py_error = KeyError | IndexError | TypeError

definition MAX_SEQ_LENGTH :: nat where
  "MAX_SEQ_LENGTH = 1024"

text \<open>\<^verbatim>\<open>d[k] = v\<close> on a dict keeps the position of an existing key and appends a new one;
  \<^verbatim>\<open>dict(pairs)\<close> and \<^verbatim>\<open>{**a, **b}\<close> insert the pairs from left to right.\<close>

definition dict_merge :: "('k \<times> 'v) list \<Rightarrow> ('k \<times> 'v) list \<Rightarrow> ('k \<times> 'v) list" where
  "dict_merge a b = fold (\<lambda>(k, v) d. AList.update k v d) b a"

definition py_dict :: "('k \<times> 'v) list \<Rightarrow> ('k \<times> 'v) list" where
  "py_dict kvs = dict_merge [] kvs"

text \<open>\<^verbatim>\<open>d.get(k, default)\<close>.\<close>

definition dict_get :: "('k \<times> 'v) list \<Rightarrow> 'k \<Rightarrow> 'v \<Rightarrow> 'v" where
  "dict_get d k dflt = (case map_of d k of Some v \<Rightarrow> v | None \<Rightarrow> dflt)"

text \<open>\<^verbatim>\<open>xs[-n:]\<close>: the last \<open>n\<close> elements, the whole list when it is shorter (and when
  \<open>n = 0\<close>, where \<^verbatim>\<open>-0\<close> is \<^verbatim>\<open>0\<close>).\<close>

definition py_suffix :: "nat \<Rightarrow> 'a list \<Rightarrow> 'a list" where
  "py_suffix n xs = (if n = 0 then xs else drop (length xs - n) xs)"

text \<open>\<^verbatim>\<open>str\<close> of an integer: decimal digits, with a leading minus sign when negative.\<close>

definition digit_char :: "nat \<Rightarrow> char" where
  "digit_char d = ''0123456789'' ! d"

fun str_nat :: "nat \<Rightarrow> string" where
  "str_nat n = (if n < 10 then [digit_char n] else str_nat (n div 10) @ [digit_char (n mod 10)])"

declare str_nat.simps [simp del]

definition str_int :: "int \<Rightarrow> string" where
  "str_int i = (if i < 0 then CHR ''-'' # str_nat (nat (- i)) else str_nat (nat i))"

text \<open>\<^verbatim>\<open>astype(np.int32)\<close> on an integer column: the value modulo \<open>2^32\<close>, read as two's
  complement. It is the identity on values that fit 32 bits.\<close>

definition astype_int32 :: "int \<Rightarrow> int" where
  "astype_int32 c = (c + 2147483648) mod 4294967296 - 2147483648"

text \<open>\<^verbatim>\<open>np.unique\<close>: the distinct values in ascending order.\<close>

definition np_unique :: "int list \<Rightarrow> int list" where
  "np_unique xs = sort (remdups xs)"

text \<open>\<^verbatim>\<open>enumerate\<close>.\<close>

definition enumerate_from0 :: "'a list \<Rightarrow> (nat \<times> 'a) list" where
  "enumerate_from0 xs = zip [0 ..< length xs] xs"

section \<open>Tables\<close>

text \<open>A row of the patient-event table: \<^verbatim>\<open>person_id\<close>, \<^verbatim>\<open>concept_id\<close>, \<^verbatim>\<open>event_date\<close>.\<close>

record event =
  person_id :: int
  concept_id :: int
  event_date :: int

text \<open>The dtype of a date column of a table that is passed to the labeler. \<^verbatim>\<open>pd.read_csv\<close>
  gives a column the dtype \<^verbatim>\<open>object\<close> when some row of the file has a date (a missing date
  is then a \<^verbatim>\<open>NaN\<close> entry of the \<^verbatim>\<open>object\<close> column) or the file has no row, and the dtype
  \<^verbatim>\<open>float64\<close> when the file has rows and none of them has a date. Selecting rows of a
  table, as the cell before the first call of \<^verbatim>\<open>process_patient_data\<close> does, keeps the dtype
  of its columns, so the dtype is not determined by the rows that are passed.\<close>

datatype dtype = Object | Float64 | Datetime64

text \<open>A table with a person id and a date in every row (the index-date table with the column
  named by \<^verbatim>\<open>index_col_name\<close>, and the outcome table with \<^verbatim>\<open>first_mace_date\<close>): the dtype of
  the date column and the rows.\<close>

record dated_table =
  date_dtype :: dtype
  table_rows :: "(int \<times> int option) list"

section \<open>Vocabulary Builder: \<^verbatim>\<open>create_vocabulary\<close>\<close>

definition create_vocabulary :: "'a event_scheme list \<Rightarrow> (string \<times> nat) list" where
  "create_vocabulary df =
     (let unique_codes = map str_int (np_unique (map (\<lambda>r. astype_int32 (concept_id r)) df))
      in dict_merge
           (py_dict (map (\<lambda>(idx, code). (code, idx + 4)) (enumerate_from0 unique_codes)))
           [(''[PAD]'', 0), (''[CLS]'', 1), (''[SEP]'', 2), (''[DAY]'', 3)])"

section \<open>Outcome Labeler: \<^verbatim>\<open>calculate_mace_outcomes\<close>\<close>

text \<open>\<^verbatim>\<open>pd.merge(left, right, on=key, how='left')\<close>: the rows of \<open>left\<close> in their order; each is
  paired with every row of \<open>right\<close> that has its key, in the order of \<open>right\<close>, and with
  missing values (\<open>None\<close>) when no row of \<open>right\<close> has it.\<close>

definition merge_left :: "('a \<Rightarrow> 'k) \<Rightarrow> 'a list \<Rightarrow> ('b \<Rightarrow> 'k) \<Rightarrow> 'b list \<Rightarrow> ('a \<times> 'b option) list" where
  "merge_left lkey left rkey right =
     concat (map (\<lambda>l. case filter (\<lambda>r. rkey r = lkey l) right of
                          [] \<Rightarrow> [(l, None)]
                        | ms \<Rightarrow> map (\<lambda>r. (l, Some r)) ms) left)"

text \<open>\<^verbatim>\<open>Timedelta.days\<close>: whole days, rounded down.\<close>

definition td_days :: "int \<Rightarrow> int" where
  "td_days delta = delta div 86400"

text \<open>The columns of a row of \<^verbatim>\<open>outcomes\<close>, the left join of the index-date table
  (\<^verbatim>\<open>person_id\<close>, index date) with the outcome table (\<^verbatim>\<open>person_id\<close>, \<^verbatim>\<open>first_mace_date\<close>).\<close>

definition first_mace_date :: "(int \<times> int option) \<times> (int \<times> int option) option \<Rightarrow> int option" where
  "first_mace_date row = (case snd row of None \<Rightarrow> None | Some m \<Rightarrow> snd m)"

definition index_date :: "(int \<times> int option) \<times> (int \<times> int option) option \<Rightarrow> int option" where
  "index_date row = snd (fst row)"

text \<open>One entry of \<^verbatim>\<open>days_to_mace\<close>: zero unless the outcome date is present
  (\<^verbatim>\<open>valid_dates\<close>); then the days of the difference, and zero when the difference is missing
  (\<^verbatim>\<open>x.days if pd.notna(x) else 0\<close>).\<close>

definition days_to_mace :: "(int \<times> int option) \<times> (int \<times> int option) option \<Rightarrow> int" where
  "days_to_mace row =
     (case first_mace_date row of
        None \<Rightarrow> 0
      | Some m \<Rightarrow> (case index_date row of None \<Rightarrow> 0 | Some i \<Rightarrow> td_days (m - i)))"

text \<open>The dtype of a date column after \<^verbatim>\<open>df.loc[:, col] = pd.to_datetime(df[col])\<close>: the
  assignment writes the time stamps into an \<^verbatim>\<open>object\<close> column in place, and it replaces a
  column of another dtype, which cannot hold them, by the \<^verbatim>\<open>datetime64\<close> column.\<close>

definition loc_assign_datetime :: "dtype \<Rightarrow> dtype" where
  "loc_assign_datetime d = (case d of Object \<Rightarrow> Object | _ \<Rightarrow> Datetime64)"

text \<open>The returned frame (\<^verbatim>\<open>person_id\<close>, \<^verbatim>\<open>mace_12m\<close>), computed from the rows of
  \<^verbatim>\<open>outcomes\<close>.\<close>

definition label_frame ::
  "((int \<times> int option) \<times> (int \<times> int option) option) list \<Rightarrow> (int \<times> int) list" where
  "label_frame outcomes =
     (let mace_12m = map (\<lambda>row. if 7 \<le> days_to_mace row \<and> days_to_mace row \<le> 365
                                then 1 else 0) outcomes
      in zip (map (\<lambda>row. fst (fst row)) outcomes) mace_12m)"

text \<open>The left join keeps the dtypes of the two date columns. When \<^verbatim>\<open>outcomes\<close> has a row,
  the two columns (their rows with an outcome date, possibly none) are subtracted; the
  subtraction of a \<^verbatim>\<open>datetime64\<close> column from an \<^verbatim>\<open>object\<close> column raises \<^verbatim>\<open>TypeError\<close>,
  whatever the rows.\<close>

definition calculate_mace_outcomes ::
  "dated_table \<Rightarrow> dated_table \<Rightarrow> py_error + (int \<times> int) list" where
  "calculate_mace_outcomes antihypertensive_starts mace_data =
     (let index_dtype = loc_assign_datetime (date_dtype antihypertensive_starts);
          mace_dtype = loc_assign_datetime (date_dtype mace_data);
          outcomes = merge_left fst (table_rows antihypertensive_starts)
                       fst (table_rows mace_data)
      in if outcomes \<noteq> [] \<and> mace_dtype = Object \<and> index_dtype = Datetime64
         then Inl TypeError
         else Inr (label_frame outcomes))"

section \<open>Sequence Tokenizer: \<^verbatim>\<open>tokenize_patient_data\<close>\<close>

text \<open>The \<^verbatim>\<open>for\<close> loop over \<^verbatim>\<open>zip(dates_array, events_array)\<close>, with the loop variables
  \<^verbatim>\<open>current_date\<close> (\<open>None\<close> at the start) and \<^verbatim>\<open>tokens\<close>.\<close>

fun tokenize_loop :: "(int \<times> int) list \<Rightarrow> int option \<Rightarrow> string list \<Rightarrow> string list" where
  "tokenize_loop [] current_date tokens = tokens"
| "tokenize_loop ((date, code) # rest) current_date tokens =
     (if Some date \<noteq> current_date
      then tokenize_loop rest (Some date)
             ((if current_date \<noteq> None then tokens @ [''[SEP]''] else tokens)
                @ [''[DAY]''] @ [str_int code])
      else tokenize_loop rest current_date (tokens @ [str_int code]))"

definition patient_tokens :: "int list \<Rightarrow> int list \<Rightarrow> string list" where
  "patient_tokens events_array dates_array =
     tokenize_loop (zip dates_array events_array) None [''[CLS]''] @ [''[SEP]'']"

text \<open>\<^verbatim>\<open>[vocab.get(token, vocab['[PAD]']) for token in tokens]\<close>: the default is looked up
  for every token, so a vocabulary without \<^verbatim>\<open>[PAD]\<close> raises \<^verbatim>\<open>KeyError\<close>.\<close>

definition token_ids :: "(string \<times> nat) list \<Rightarrow> string list \<Rightarrow> py_error + nat list" where
  "token_ids vocab tokens =
     (if tokens = [] then Inr []
      else case map_of vocab ''[PAD]'' of
             None \<Rightarrow> Inl KeyError
           | Some pad \<Rightarrow> Inr (map (\<lambda>token. dict_get vocab token pad) tokens))"

definition tokenize_patient_data ::
  "int list \<Rightarrow> int list \<Rightarrow> (string \<times> nat) list \<Rightarrow> py_error + nat list" where
  "tokenize_patient_data events_array dates_array vocab =
     (case token_ids vocab (patient_tokens events_array dates_array) of
        Inl e \<Rightarrow> Inl e
      | Inr ids \<Rightarrow> Inr (py_suffix MAX_SEQ_LENGTH ids))"

section \<open>Patient Sequence Assembler: \<^verbatim>\<open>process_patient_data\<close>\<close>

text \<open>A cell of a float column or float array: a number or \<^verbatim>\<open>NaN\<close>.\<close>

datatype cell = Val int | NaN

text \<open>The event table after the two column conversions and \<^verbatim>\<open>sort_values\<close> on
  \<^verbatim>\<open>['person_id', 'event_date']\<close>, which keeps the order of rows with equal keys.\<close>

definition prepare_data :: "event list \<Rightarrow> event list" where
  "prepare_data data =
     sort_key (\<lambda>r. (person_id r, event_date r))
       (map (\<lambda>r. r\<lparr>concept_id := astype_int32 (concept_id r)\<rparr>) data)"

text \<open>The event table after the left join with the labels; the column \<^verbatim>\<open>mace_12m\<close> of a
  joined row is \<^verbatim>\<open>NaN\<close> where no label row has the person id.\<close>

definition merged_data ::
  "event list \<Rightarrow> (int \<times> int) list \<Rightarrow> (event \<times> (int \<times> int) option) list" where
  "merged_data data mace_outcomes_df =
     merge_left person_id (prepare_data data) fst mace_outcomes_df"

definition mace_12m :: "event \<times> (int \<times> int) option \<Rightarrow> cell" where
  "mace_12m row = (case snd row of None \<Rightarrow> NaN | Some l \<Rightarrow> Val (snd l))"

text \<open>\<^verbatim>\<open>groupby('person_id')\<close>: the groups in ascending order of the key, each with its rows in
  table order.\<close>

definition groupby_person_id :: "(event \<times> 'b) list \<Rightarrow> (int \<times> (event \<times> 'b) list) list" where
  "groupby_person_id rows =
     map (\<lambda>name. (name, filter (\<lambda>row. person_id (fst row) = name) rows))
       (sort (remdups (map (\<lambda>row. person_id (fst row)) rows)))"

fun traverse :: "('a \<Rightarrow> py_error + 'b) \<Rightarrow> 'a list \<Rightarrow> py_error + 'b list" where
  "traverse f [] = Inr []"
| "traverse f (x # xs) =
     (case f x of
        Inl e \<Rightarrow> Inl e
      | Inr y \<Rightarrow> (case traverse f xs of Inl e \<Rightarrow> Inl e | Inr ys \<Rightarrow> Inr (y # ys)))"

text \<open>One entry of \<^verbatim>\<open>grouped_data\<close>; \<^verbatim>\<open>iloc[0]\<close> raises on an empty group.\<close>

definition group_entry ::
  "int \<times> (event \<times> (int \<times> int) option) list \<Rightarrow> py_error + (int \<times> int list \<times> int list \<times> cell)" where
  "group_entry g =
     (case snd g of
        [] \<Rightarrow> Inl IndexError
      | row # _ \<Rightarrow> Inr (fst g, map (\<lambda>r. concept_id (fst r)) (snd g),
                          map (\<lambda>r. event_date (fst r)) (snd g), mace_12m row))"

definition grouped_data ::
  "(event \<times> (int \<times> int) option) list \<Rightarrow> py_error + (int \<times> int list \<times> int list \<times> cell) list" where
  "grouped_data rows = traverse group_entry (groupby_person_id rows)"

text \<open>The arrays filled by the main loop, and its running maximum.\<close>

record arrays =
  padded_sequences :: "nat list list"
  mace_outcomes :: "cell list"
  sample_ids :: "int option list"
  max_seq_length :: nat

text \<open>The loop over \<^verbatim>\<open>enumerate(grouped_data.items())\<close>. A write at an index outside an
  array raises \<^verbatim>\<open>IndexError\<close>.\<close>

fun process_loop ::
  "(string \<times> nat) list \<Rightarrow> (nat \<times> int \<times> int list \<times> int list \<times> cell) list \<Rightarrow> arrays
     \<Rightarrow> py_error + arrays" where
  "process_loop vocab [] st = Inr st"
| "process_loop vocab ((i, patient_id, events, dates, mace) # rest) st =
     (case tokenize_patient_data events dates vocab of
        Inl e \<Rightarrow> Inl e
      | Inr tokens \<Rightarrow>
          (let seq_len = min (length tokens) MAX_SEQ_LENGTH in
           if i < length (padded_sequences st) \<and> i < length (mace_outcomes st)
              \<and> i < length (sample_ids st)
           then process_loop vocab rest
                  (st\<lparr>padded_sequences := (padded_sequences st)
                          [i := take seq_len tokens @ drop seq_len (padded_sequences st ! i)],
                      max_seq_length := max (max_seq_length st) (length tokens),
                      mace_outcomes := (mace_outcomes st)[i := mace],
                      sample_ids := (sample_ids st)[i := Some patient_id]\<rparr>)
           else Inl IndexError))"

text \<open>What one invocation saves and prints.\<close>

record processed =
  sequences_npy :: "nat list list"
  lengths_npy :: "nat list"
  outcomes_npy :: "cell list"
  vocab_pkl :: "(string \<times> nat) list"
  sample_id_to_index :: "(int option \<times> nat) list"
  printed_max_sequence_length :: nat
  n_patients :: nat

definition input_length ::
  "(string \<times> nat) list \<Rightarrow> int \<times> int list \<times> int list \<times> cell \<Rightarrow> py_error + nat" where
  "input_length vocab g =
     (case g of (name, events, dates, mace) \<Rightarrow>
        (case tokenize_patient_data events dates vocab of
           Inl e \<Rightarrow> Inl e
         | Inr tokens \<Rightarrow> Inr (min (length tokens) MAX_SEQ_LENGTH)))"

definition process_patient_data ::
  "event list \<Rightarrow> dated_table \<Rightarrow> dated_table \<Rightarrow> py_error + processed" where
  "process_patient_data data antihypertensive_starts mace_data =
     (case calculate_mace_outcomes antihypertensive_starts mace_data of
        Inl e \<Rightarrow> Inl e
      | Inr mace_outcomes_df \<Rightarrow>
     (let vocab = create_vocabulary (prepare_data data) in
      case grouped_data (merged_data data mace_outcomes_df) of
        Inl e \<Rightarrow> Inl e
      | Inr grouped \<Rightarrow>
          (let n = length grouped;
               init = \<lparr>padded_sequences = replicate n (replicate MAX_SEQ_LENGTH 0),
                       mace_outcomes = replicate n (Val 0),
                       sample_ids = replicate n None,
                       max_seq_length = 0\<rparr>
           in case process_loop vocab (enumerate_from0 grouped) init of
                Inl e \<Rightarrow> Inl e
              | Inr st \<Rightarrow>
                  (case traverse (input_length vocab) grouped of
                     Inl e \<Rightarrow> Inl e
                   | Inr lens \<Rightarrow>
                       Inr \<lparr>sequences_npy = padded_sequences st,
                            lengths_npy = lens,
                            outcomes_npy = mace_outcomes st,
                            vocab_pkl = vocab,
                            sample_id_to_index =
                              py_dict (zip (sample_ids st) [0 ..< length (sample_ids st)]),
                            printed_max_sequence_length = max_seq_length st,
                            n_patients = n\<rparr>))))"

section \<open>Mortality Label Aligner: the cell after the call of \<^verbatim>\<open>process_patient_data\<close>\<close>

text \<open>A row of the death table: \<^verbatim>\<open>person_id\<close>, \<^verbatim>\<open>first_exposure_date\<close>, \<^verbatim>\<open>death_date\<close>.\<close>

record death =
  death_person_id :: int
  first_exposure_date :: "int option"
  death_date :: "int option"

text \<open>\<^verbatim>\<open>(death_date - first_exposure_date).dt.total_seconds() / (24 * 3600)\<close>; \<open>None\<close> is
  \<^verbatim>\<open>NaN\<close>, the result when one of the dates is missing.\<close>

definition days_to_death :: "death \<Rightarrow> real option" where
  "days_to_death r =
     (case death_date r of
        None \<Rightarrow> None
      | Some d \<Rightarrow> (case first_exposure_date r of
                     None \<Rightarrow> None
                   | Some f \<Rightarrow> Some (real_of_int (d - f) / (24 * 3600))))"

text \<open>A comparison with \<^verbatim>\<open>NaN\<close> is false, so \<^verbatim>\<open>fillna(0)\<close> finds nothing to fill.\<close>

definition death_12m :: "death \<Rightarrow> int" where
  "death_12m r =
     (case days_to_death r of
        None \<Rightarrow> 0
      | Some x \<Rightarrow> if 0 \<le> x \<and> x \<le> 365 then 1 else 0)"

text \<open>The loop over \<^verbatim>\<open>id_mapping.items()\<close>. The keys of \<^verbatim>\<open>death_dict\<close> are person ids, so
  the key \<open>None\<close> gets the default.\<close>

fun align_loop ::
  "(int \<times> int) list \<Rightarrow> (int option \<times> nat) list \<Rightarrow> int list \<Rightarrow> py_error + int list" where
  "align_loop death_dict [] death_outcomes = Inr death_outcomes"
| "align_loop death_dict ((pid, idx) # rest) death_outcomes =
     (if idx < length death_outcomes
      then align_loop death_dict rest
             (death_outcomes[idx := (case pid of None \<Rightarrow> 0 | Some p \<Rightarrow> dict_get death_dict p 0)])
      else Inl IndexError)"

definition death_outcomes :: "death list \<Rightarrow> (int option \<times> nat) list \<Rightarrow> py_error + int list" where
  "death_outcomes deaths id_mapping =
     (let death_dict = py_dict (zip (map death_person_id deaths) (map death_12m deaths))
      in align_loop death_dict id_mapping (replicate (length id_mapping) 0))"

section \<open>Notions used in the statements\<close>

text \<open>The distinct concept codes of a table as the builder reads them, in ascending order:
  the array \<^verbatim>\<open>unique_codes\<close> before it is converted to strings.\<close>

definition code_values :: "'a event_scheme list \<Rightarrow> int list" where
  "code_values df = np_unique (map (\<lambda>r. astype_int32 (concept_id r)) df)"

text \<open>An event table with one patient: codes 10 and 20 on one day, code 30 on the next.\<close>

definition example_events :: "event list" where
  "example_events =
     [\<lparr>person_id = 1, concept_id = 10, event_date = 0\<rparr>,
      \<lparr>person_id = 1, concept_id = 20, event_date = 0\<rparr>,
      \<lparr>person_id = 1, concept_id = 30, event_date = 86400\<rparr>]"

text \<open>An event table with two patients, not in sorted order; patient 2 has an index date and an
  outcome seven days later, patient 1 has no row in the index-date table.\<close>

definition example_table :: "event list" where
  "example_table =
     [\<lparr>person_id = 2, concept_id = 30, event_date = 86400\<rparr>,
      \<lparr>person_id = 1, concept_id = 10, event_date = 0\<rparr>,
      \<lparr>person_id = 2, concept_id = 10, event_date = 0\<rparr>,
      \<lparr>person_id = 2, concept_id = 20, event_date = 0\<rparr>]"

definition example_starts :: dated_table where
  "example_starts = \<lparr>date_dtype = Object, table_rows = [(2, Some 0)]\<rparr>"

definition example_mace :: dated_table where
  "example_mace = \<lparr>date_dtype = Object, table_rows = [(2, Some 604800)]\<rparr>"

text \<open>Index dates and outcome dates 7, 6, 365 and 366 days apart, a missing outcome date,
  a patient without a row in the outcome table, and a missing index date.\<close>

definition window_starts :: dated_table where
  "window_starts =
     \<lparr>date_dtype = Object,
      table_rows = [(1, Some 0), (2, Some 0), (3, Some 0), (4, Some 0), (5, Some 0), (6, Some 0),
                    (7, None)]\<rparr>"

definition window_mace :: dated_table where
  "window_mace =
     \<lparr>date_dtype = Object,
      table_rows = [(1, Some 604800), (2, Some 518400), (3, Some 31536000), (4, Some 31622400),
                    (5, None), (7, Some 604800)]\<rparr>"

text \<open>A death table: death 365 days after exposure, a person outside the mapping, and a
  missing death date.\<close>

definition example_deaths :: "death list" where
  "example_deaths =
     [\<lparr>death_person_id = 2, first_exposure_date = Some 0, death_date = Some 31536000\<rparr>,
      \<lparr>death_person_id = 7, first_exposure_date = Some 0, death_date = Some 86400\<rparr>,
      \<lparr>death_person_id = 1, first_exposure_date = Some 0, death_date = None\<rparr>]"

text \<open>Two index-date rows for person 1, and an outcome seven days after the first.\<close>

definition duplicate_starts :: dated_table where
  "duplicate_starts = \<lparr>date_dtype = Object, table_rows = [(1, Some 0), (1, Some 86400)]\<rparr>"

definition duplicate_mace :: dated_table where
  "duplicate_mace = \<lparr>date_dtype = Object, table_rows = [(1, Some 604800)]\<rparr>"

section \<open>Decimal strings\<close>

lemma digit_char_inj: "a < 10 \<Longrightarrow> b < 10 \<Longrightarrow> digit_char a = digit_char b \<Longrightarrow> a = b"
  unfolding digit_char_def
  by (subst (asm) nth_eq_iff_index_eq) simp_all

lemma digit_char_in: "a < 10 \<Longrightarrow> digit_char a \<in> set ''0123456789''"
  unfolding digit_char_def by (rule nth_mem) simp

lemma str_nat_digits: "set (str_nat n) \<subseteq> set ''0123456789''"
proof (induction n rule: str_nat.induct)
  case (1 n)
  show ?case
  proof (cases "n < 10")
    case True
    then show ?thesis using digit_char_in [of n] by (subst str_nat.simps) simp
  next
    case False
    have "n mod 10 < 10" by simp
    then have "digit_char (n mod 10) \<in> set ''0123456789''" by (rule digit_char_in)
    with False 1 show ?thesis by (subst str_nat.simps) simp
  qed
qed

lemma str_nat_nonempty: "str_nat n \<noteq> []"
  by (subst str_nat.simps) simp

lemma str_nat_length1: "length (str_nat n) = 1 \<Longrightarrow> n < 10"
proof (rule ccontr)
  assume a: "length (str_nat n) = 1" and b: "\<not> n < 10"
  have "str_nat n = str_nat (n div 10) @ [digit_char (n mod 10)]"
    using b by (subst str_nat.simps) simp
  then have "length (str_nat n) = length (str_nat (n div 10)) + 1" by simp
  moreover have "length (str_nat (n div 10)) > 0" using str_nat_nonempty by simp
  ultimately show False using a by simp
qed

lemma str_nat_inj: "str_nat n = str_nat m \<Longrightarrow> n = m"
proof (induction n arbitrary: m rule: str_nat.induct)
  case (1 n)
  show ?case
  proof (cases "n < 10")
    case True
    then have sn: "str_nat n = [digit_char n]" by (subst str_nat.simps) simp
    from 1(2) sn have "str_nat m = [digit_char n]" by simp
    then have "length (str_nat m) = 1" by simp
    then have m: "m < 10" by (rule str_nat_length1)
    then have "str_nat m = [digit_char m]" by (subst str_nat.simps) simp
    with sn 1(2) have "digit_char n = digit_char m" by simp
    with True m show ?thesis by (rule digit_char_inj)
  next
    case False
    then have sn: "str_nat n = str_nat (n div 10) @ [digit_char (n mod 10)]"
      by (subst str_nat.simps) simp
    have m: "\<not> m < 10"
    proof
      assume "m < 10"
      then have "str_nat m = [digit_char m]" by (subst str_nat.simps) simp
      with 1(2) have "str_nat n = [digit_char m]" by simp
      then have "length (str_nat n) = 1" by simp
      then have "n < 10" by (rule str_nat_length1)
      with False show False by simp
    qed
    then have sm: "str_nat m = str_nat (m div 10) @ [digit_char (m mod 10)]"
      by (subst str_nat.simps) simp
    from sn sm 1(2) have e1: "str_nat (n div 10) = str_nat (m div 10)"
      and e2: "digit_char (n mod 10) = digit_char (m mod 10)" by simp_all
    from 1(1) [OF False e1] have d: "n div 10 = m div 10" .
    have "n mod 10 = m mod 10" by (rule digit_char_inj [OF _ _ e2]) simp_all
    with d show ?thesis by (metis div_mult_mod_eq)
  qed
qed

lemma str_int_hd: "hd (str_int i) \<in> set ''-0123456789''"
proof (cases "i < 0")
  case True
  then show ?thesis by (simp add: str_int_def)
next
  case False
  have "hd (str_nat (nat i)) \<in> set (str_nat (nat i))" using str_nat_nonempty by simp
  with str_nat_digits have "hd (str_nat (nat i)) \<in> set ''0123456789''" by blast
  with False show ?thesis by (simp add: str_int_def)
qed

lemma str_int_inj: "str_int i = str_int j \<Longrightarrow> i = j"
proof -
  assume e: "str_int i = str_int j"
  have nm: "\<And>n. hd (str_nat n) \<noteq> CHR ''-''"
  proof -
    fix n
    have "hd (str_nat n) \<in> set (str_nat n)" using str_nat_nonempty by simp
    with str_nat_digits have "hd (str_nat n) \<in> set ''0123456789''" by blast
    then show "hd (str_nat n) \<noteq> CHR ''-''" by auto
  qed
  show ?thesis
  proof (cases "i < 0")
    case True
    show ?thesis
    proof (cases "j < 0")
      case j: True
      with True e have "str_nat (nat (- i)) = str_nat (nat (- j))" by (simp add: str_int_def)
      then have "nat (- i) = nat (- j)" by (rule str_nat_inj)
      with True j show ?thesis by simp
    next
      case j: False
      with True e have "CHR ''-'' # str_nat (nat (- i)) = str_nat (nat j)" by (simp add: str_int_def)
      then have "hd (str_nat (nat j)) = CHR ''-''" by (metis list.sel(1))
      with nm show ?thesis by blast
    qed
  next
    case False
    show ?thesis
    proof (cases "j < 0")
      case j: True
      with False e have "CHR ''-'' # str_nat (nat (- j)) = str_nat (nat i)" by (simp add: str_int_def)
      then have "hd (str_nat (nat i)) = CHR ''-''" by (metis list.sel(1))
      with nm show ?thesis by blast
    next
      case j: False
      with False e have "str_nat (nat i) = str_nat (nat j)" by (simp add: str_int_def)
      then have "nat i = nat j" by (rule str_nat_inj)
      with False j show ?thesis by simp
    qed
  qed
qed

lemma str_int_not_reserved:
  "str_int i \<noteq> ''[PAD]''" "str_int i \<noteq> ''[CLS]''" "str_int i \<noteq> ''[SEP]''" "str_int i \<noteq> ''[DAY]''"
  using str_int_hd [of i] by auto

lemma str_int_not_reserved_sym:
  "''[PAD]'' \<noteq> str_int i" "''[CLS]'' \<noteq> str_int i" "''[SEP]'' \<noteq> str_int i" "''[DAY]'' \<noteq> str_int i"
  using str_int_not_reserved [of i, symmetric] by simp_all

lemmas str_int_reserved = str_int_not_reserved str_int_not_reserved_sym

section \<open>Dictionaries and the vocabulary\<close>

lemma update_new: "k \<notin> fst ` set al \<Longrightarrow> AList.update k v al = al @ [(k, v)]"
  by (induction al) auto

lemma dict_merge_append:
  "distinct (map fst b) \<Longrightarrow> fst ` set a \<inter> fst ` set b = {} \<Longrightarrow> dict_merge a b = a @ b"
proof (induction b arbitrary: a)
  case Nil
  then show ?case by (simp add: dict_merge_def)
next
  case (Cons p b)
  obtain k v where p: "p = (k, v)" by (cases p)
  from Cons.prems have knew: "k \<notin> fst ` set a" and kb: "k \<notin> fst ` set b"
    and db: "distinct (map fst b)" and disj: "fst ` set a \<inter> fst ` set b = {}"
    by (auto simp: p)
  have "fst ` set (a @ [(k, v)]) \<inter> fst ` set b = {}" using disj kb by auto
  from Cons.IH [OF db this] have "dict_merge (a @ [(k, v)]) b = a @ [(k, v)] @ b" by simp
  then show ?case by (simp add: dict_merge_def p update_new [OF knew])
qed

lemma py_dict_distinct: "distinct (map fst kvs) \<Longrightarrow> py_dict kvs = kvs"
  by (simp add: py_dict_def dict_merge_append)

lemma map_of_dict_merge: "map_of (dict_merge a b) = map_of a ++ map_of (rev b)"
proof (induction b arbitrary: a)
  case Nil
  then show ?case by (simp add: dict_merge_def)
next
  case (Cons p b)
  obtain k v where p: "p = (k, v)" by (cases p)
  have "dict_merge a (p # b) = dict_merge (AList.update k v a) b"
    by (simp add: dict_merge_def p)
  also have "map_of \<dots> = map_of (AList.update k v a) ++ map_of (rev b)" by (rule Cons.IH)
  also have "\<dots> = map_of a ++ map_of (rev (p # b))"
    by (simp add: p update_conv' map_add_def fun_eq_iff split: option.splits)
  finally show ?case .
qed

lemma enumerate_shift:
  "map (\<lambda>(idx, code). (code, idx + 4)) (enumerate_from0 xs) = zip xs [4 ..< 4 + length xs]"
  by (rule nth_equalityI) (simp_all add: enumerate_from0_def)


lemma code_values_sorted: "sorted (code_values df)" "distinct (code_values df)"
  by (simp_all add: code_values_def np_unique_def)

lemma code_values_set: "set (code_values df) = (\<lambda>r. astype_int32 (concept_id r)) ` set df"
  by (simp add: code_values_def np_unique_def)

lemma str_int_distinct: "distinct xs \<Longrightarrow> distinct (map str_int xs)"
  by (simp add: distinct_map inj_on_def str_int_inj)

lemma create_vocabulary_eq:
  "create_vocabulary df =
     zip (map str_int (code_values df)) [4 ..< 4 + length (code_values df)]
       @ [(''[PAD]'', 0), (''[CLS]'', 1), (''[SEP]'', 2), (''[DAY]'', 3)]"
proof -
  let ?keys = "map str_int (code_values df)"
  let ?kv = "zip ?keys [4 ..< 4 + length (code_values df)]"
  have dk: "distinct ?keys" by (rule str_int_distinct) (rule code_values_sorted)
  have fk: "map fst ?kv = ?keys" by simp
  have d1: "distinct (map fst ?kv)" using dk by (simp only: fk)
  have p: "py_dict ?kv = ?kv" by (rule py_dict_distinct [OF d1])
  have disj: "fst ` set ?kv \<inter> fst ` set [(''[PAD]'', 0::nat), (''[CLS]'', 1), (''[SEP]'', 2), (''[DAY]'', 3)] = {}"
  proof -
    have "fst ` set ?kv = set ?keys" using fk by (metis set_map)
    then show ?thesis by (auto simp: str_int_reserved)
  qed
  have "dict_merge ?kv [(''[PAD]'', 0), (''[CLS]'', 1), (''[SEP]'', 2), (''[DAY]'', 3)]
        = ?kv @ [(''[PAD]'', 0), (''[CLS]'', 1), (''[SEP]'', 2), (''[DAY]'', 3)]"
    by (rule dict_merge_append [OF _ disj]) simp
  then show ?thesis
    by (simp add: create_vocabulary_def Let_def enumerate_shift code_values_def [symmetric] p)
qed

lemma vocab_reserved:
  "map_of (create_vocabulary df) ''[PAD]'' = Some 0"
  "map_of (create_vocabulary df) ''[CLS]'' = Some 1"
  "map_of (create_vocabulary df) ''[SEP]'' = Some 2"
  "map_of (create_vocabulary df) ''[DAY]'' = Some 3"
proof -
  let ?keys = "map str_int (code_values df)"
  let ?kv = "zip ?keys [4 ..< 4 + length (code_values df)]"
  have n: "\<And>s. s \<notin> set ?keys \<Longrightarrow> map_of ?kv s = None"
    by (simp add: map_of_zip_is_None)
  have r: "''[PAD]'' \<notin> set ?keys" "''[CLS]'' \<notin> set ?keys" "''[SEP]'' \<notin> set ?keys" "''[DAY]'' \<notin> set ?keys"
    by (auto simp: str_int_reserved)
  show "map_of (create_vocabulary df) ''[PAD]'' = Some 0"
    "map_of (create_vocabulary df) ''[CLS]'' = Some 1"
    "map_of (create_vocabulary df) ''[SEP]'' = Some 2"
    "map_of (create_vocabulary df) ''[DAY]'' = Some 3"
    using r by (simp_all add: create_vocabulary_eq map_add_def n)
qed

lemma vocab_code:
  assumes "i < length (code_values df)"
  shows "map_of (create_vocabulary df) (str_int (code_values df ! i)) = Some (i + 4)"
proof -
  let ?keys = "map str_int (code_values df)"
  let ?ids = "[4 ..< 4 + length (code_values df)]"
  have dk: "distinct ?keys" by (rule str_int_distinct) (rule code_values_sorted)
  have "map_of (zip ?keys ?ids) (?keys ! i) = Some (?ids ! i)"
    by (rule map_of_zip_nth) (use assms dk in simp_all)
  then have "map_of (zip ?keys ?ids) (str_int (code_values df ! i)) = Some (i + 4)"
    using assms by (simp add: add.commute)
  then show ?thesis by (simp add: create_vocabulary_eq map_add_def)
qed

lemma vocab_unknown:
  assumes "c \<notin> set (code_values df)"
  shows "map_of (create_vocabulary df) (str_int c) = None"
proof -
  have "str_int c \<notin> set (map str_int (code_values df))"
    using assms str_int_inj by auto
  then have z: "map_of (zip (map str_int (code_values df)) [4 ..< 4 + length (code_values df)]) (str_int c) = None"
    by (simp add: map_of_zip_is_None)
  show ?thesis
    by (simp add: create_vocabulary_eq map_add_def str_int_reserved z)
qed

text \<open>The id of a code token under a built vocabulary is never a structural id.\<close>

lemma vocab_code_id:
  "dict_get (create_vocabulary df) (str_int c) 0 = 0 \<or> 4 \<le> dict_get (create_vocabulary df) (str_int c) 0"
proof (cases "c \<in> set (code_values df)")
  case True
  then obtain i where "i < length (code_values df)" "code_values df ! i = c"
    by (auto simp: in_set_conv_nth)
  then show ?thesis using vocab_code [of i df] by (simp add: dict_get_def)
next
  case False
  then show ?thesis by (simp add: dict_get_def vocab_unknown)
qed

section \<open>The tokenizer loop\<close>

lemma tokenize_loop_prefix: "\<exists>more. tokenize_loop ps cur toks = toks @ more"
proof (induction ps arbitrary: cur toks)
  case Nil
  then show ?case by simp
next
  case (Cons p ps)
  obtain d c where p: "p = (d, c)" by (cases p)
  show ?case
  proof (cases "Some d \<noteq> cur")
    case True
    obtain more where "tokenize_loop ps (Some d)
        ((if cur \<noteq> None then toks @ [''[SEP]''] else toks) @ [''[DAY]''] @ [str_int c])
      = ((if cur \<noteq> None then toks @ [''[SEP]''] else toks) @ [''[DAY]''] @ [str_int c]) @ more"
      using Cons.IH by blast
    with True show ?thesis by (simp add: p)
  next
    case False
    obtain more where "tokenize_loop ps cur (toks @ [str_int c]) = (toks @ [str_int c]) @ more"
      using Cons.IH by blast
    with False show ?thesis by (simp add: p)
  qed
qed

lemma tokenize_loop_codes:
  "filter (\<lambda>t. t \<noteq> ''[CLS]'' \<and> t \<noteq> ''[SEP]'' \<and> t \<noteq> ''[DAY]'') (tokenize_loop ps cur toks)
     = filter (\<lambda>t. t \<noteq> ''[CLS]'' \<and> t \<noteq> ''[SEP]'' \<and> t \<noteq> ''[DAY]'') toks @ map (\<lambda>p. str_int (snd p)) ps"
  by (induction ps arbitrary: cur toks) (auto simp: str_int_reserved)

lemma tokenize_loop_set:
  "set (tokenize_loop ps cur toks) \<subseteq> set toks \<union> {''[SEP]'', ''[DAY]''} \<union> (\<lambda>p. str_int (snd p)) ` set ps"
proof (induction ps arbitrary: cur toks)
  case Nil
  then show ?case by auto
next
  case (Cons p ps)
  obtain d c where p: "p = (d, c)" by (cases p)
  show ?case
  proof (cases "Some d \<noteq> cur")
    case True
    have "set (tokenize_loop ps (Some d)
        ((if cur \<noteq> None then toks @ [''[SEP]''] else toks) @ [''[DAY]''] @ [str_int c]))
      \<subseteq> set ((if cur \<noteq> None then toks @ [''[SEP]''] else toks) @ [''[DAY]''] @ [str_int c])
          \<union> {''[SEP]'', ''[DAY]''} \<union> (\<lambda>p. str_int (snd p)) ` set ps"
      by (rule Cons.IH)
    also have "\<dots> \<subseteq> set toks \<union> {''[SEP]'', ''[DAY]''} \<union> (\<lambda>p. str_int (snd p)) ` set (p # ps)"
      by (auto simp: p)
    finally show ?thesis using True by (simp add: p)
  next
    case False
    have "set (tokenize_loop ps cur (toks @ [str_int c]))
      \<subseteq> set (toks @ [str_int c]) \<union> {''[SEP]'', ''[DAY]''} \<union> (\<lambda>p. str_int (snd p)) ` set ps"
      by (rule Cons.IH)
    also have "\<dots> \<subseteq> set toks \<union> {''[SEP]'', ''[DAY]''} \<union> (\<lambda>p. str_int (snd p)) ` set (p # ps)"
      by (auto simp: p)
    finally show ?thesis using False by (simp add: p)
  qed
qed

lemma card_first_date:
  assumes "\<forall>x \<in> S. (d::int) \<le> x" "c0 < d" "finite S"
  shows "card (insert d S - {c0}) = Suc (card (S - {d}))"
proof -
  have "c0 \<notin> S" using assms by force
  then have "insert d S - {c0} = insert d S" using assms by auto
  then show ?thesis using assms by (simp add: card.insert_remove)
qed

lemma tokenize_loop_day:
  "sorted (map fst ps) \<Longrightarrow> \<forall>d \<in> set (map fst ps). c0 \<le> d \<Longrightarrow>
   count_list (tokenize_loop ps (Some c0) toks) ''[DAY]''
     = count_list toks ''[DAY]'' + card (set (map fst ps) - {c0})"
proof (induction ps arbitrary: c0 toks)
  case Nil
  then show ?case by simp
next
  case (Cons p ps)
  obtain d c where p: "p = (d, c)" by (cases p)
  from Cons.prems have s: "sorted (map fst ps)" and le: "\<forall>x \<in> set (map fst ps). d \<le> x"
    and c0: "c0 \<le> d" by (auto simp: p)
  show ?case
  proof (cases "d = c0")
    case True
    have "insert c0 (set (map fst ps)) - {c0} = set (map fst ps) - {c0}" by auto
    with True Cons.IH [OF s le, of "toks @ [str_int c]"] show ?thesis
      by (simp add: p str_int_reserved)
  next
    case False
    with c0 have lt: "c0 < d" by simp
    have "card (insert d (set (map fst ps)) - {c0}) = Suc (card (set (map fst ps) - {d}))"
      by (rule card_first_date [OF le lt]) simp
    with False Cons.IH [OF s le, of "(toks @ [''[SEP]'']) @ [''[DAY]''] @ [str_int c]"]
    show ?thesis by (simp add: p str_int_reserved)
  qed
qed

lemma tokenize_loop_sep:
  "sorted (map fst ps) \<Longrightarrow> \<forall>d \<in> set (map fst ps). c0 \<le> d \<Longrightarrow>
   count_list (tokenize_loop ps (Some c0) toks) ''[SEP]''
     = count_list toks ''[SEP]'' + card (set (map fst ps) - {c0})"
proof (induction ps arbitrary: c0 toks)
  case Nil
  then show ?case by simp
next
  case (Cons p ps)
  obtain d c where p: "p = (d, c)" by (cases p)
  from Cons.prems have s: "sorted (map fst ps)" and le: "\<forall>x \<in> set (map fst ps). d \<le> x"
    and c0: "c0 \<le> d" by (auto simp: p)
  show ?case
  proof (cases "d = c0")
    case True
    have "insert c0 (set (map fst ps)) - {c0} = set (map fst ps) - {c0}" by auto
    with True Cons.IH [OF s le, of "toks @ [str_int c]"] show ?thesis
      by (simp add: p str_int_reserved)
  next
    case False
    with c0 have lt: "c0 < d" by simp
    have "card (insert d (set (map fst ps)) - {c0}) = Suc (card (set (map fst ps) - {d}))"
      by (rule card_first_date [OF le lt]) simp
    with False Cons.IH [OF s le, of "(toks @ [''[SEP]'']) @ [''[DAY]''] @ [str_int c]"]
    show ?thesis by (simp add: p str_int_reserved)
  qed
qed

subsection \<open>The token list of a patient\<close>

lemma patient_tokens_hd: "hd (patient_tokens events dates) = ''[CLS]''"
proof -
  obtain more where "tokenize_loop (zip dates events) None [''[CLS]''] = [''[CLS]''] @ more"
    using tokenize_loop_prefix by blast
  then show ?thesis by (simp add: patient_tokens_def)
qed

lemma patient_tokens_last: "last (patient_tokens events dates) = ''[SEP]''"
  by (simp add: patient_tokens_def)

lemma patient_tokens_nonempty: "patient_tokens events dates \<noteq> []"
  by (simp add: patient_tokens_def)

lemma patient_tokens_codes:
  "length events = length dates \<Longrightarrow>
   filter (\<lambda>t. t \<noteq> ''[CLS]'' \<and> t \<noteq> ''[SEP]'' \<and> t \<noteq> ''[DAY]'') (patient_tokens events dates)
     = map str_int events"
proof -
  assume len: "length events = length dates"
  have "map (\<lambda>p. str_int (snd p)) (zip dates events) = map str_int (map snd (zip dates events))"
    by simp
  also have "\<dots> = map str_int events" using len by (simp only: map_snd_zip)
  finally show ?thesis by (simp add: patient_tokens_def tokenize_loop_codes)
qed

lemma patient_tokens_counts:
  assumes "length events = length dates" "sorted dates" "events \<noteq> []"
  shows "count_list (patient_tokens events dates) ''[DAY]'' = card (set dates)"
    and "count_list (patient_tokens events dates) ''[SEP]'' = card (set dates)"
proof -
  from assms obtain d ds c cs where dates: "dates = d # ds" and events: "events = c # cs"
    and len: "length cs = length ds"
    by (cases dates; cases events) auto
  have mf: "map fst (zip ds cs) = ds" using len by simp
  from assms(2) have s: "sorted (map fst (zip ds cs))" and le: "\<forall>x \<in> set (map fst (zip ds cs)). d \<le> x"
    by (simp_all add: dates mf)
  have c: "Suc (card (set ds - {d})) = card (set dates)"
    by (simp add: dates card.insert_remove)
  show "count_list (patient_tokens events dates) ''[DAY]'' = card (set dates)"
    using tokenize_loop_day [OF s le, of "[''[CLS]''] @ [''[DAY]''] @ [str_int c]"] c
    by (simp add: patient_tokens_def dates events mf str_int_reserved)
  show "count_list (patient_tokens events dates) ''[SEP]'' = card (set dates)"
    using tokenize_loop_sep [OF s le, of "[''[CLS]''] @ [''[DAY]''] @ [str_int c]"] c
    by (simp add: patient_tokens_def dates events mf str_int_reserved)
qed

lemma count_list_map_iff:
  "\<forall>t \<in> set xs. (f t = y) = (t = x) \<Longrightarrow> count_list (map f xs) y = count_list xs x"
  by (induction xs) auto

lemma token_ids_built:
  "token_ids (create_vocabulary df) toks = Inr (map (\<lambda>t. dict_get (create_vocabulary df) t 0) toks)"
  by (simp add: token_ids_def vocab_reserved)

lemma vocab_get_reserved:
  "dict_get (create_vocabulary df) ''[CLS]'' 0 = 1"
  "dict_get (create_vocabulary df) ''[SEP]'' 0 = 2"
  "dict_get (create_vocabulary df) ''[DAY]'' 0 = 3"
  by (simp_all add: dict_get_def vocab_reserved)

lemma patient_tokens_set:
  "set (patient_tokens events dates) \<subseteq> {''[CLS]'', ''[SEP]'', ''[DAY]''} \<union> range str_int"
  using tokenize_loop_set [of "zip dates events" None "[''[CLS]'']"]
  by (auto simp: patient_tokens_def)

lemma vocab_id_iff:
  assumes "t \<in> set (patient_tokens events dates)"
  shows "(dict_get (create_vocabulary df) t 0 = 1) = (t = ''[CLS]'')"
    and "(dict_get (create_vocabulary df) t 0 = 2) = (t = ''[SEP]'')"
    and "(dict_get (create_vocabulary df) t 0 = 3) = (t = ''[DAY]'')"
proof -
  from assms patient_tokens_set
  consider "t = ''[CLS]''" | "t = ''[SEP]''" | "t = ''[DAY]''" | c where "t = str_int c"
    by blast
  then have "((dict_get (create_vocabulary df) t 0 = 1) = (t = ''[CLS]''))
     \<and> ((dict_get (create_vocabulary df) t 0 = 2) = (t = ''[SEP]''))
     \<and> ((dict_get (create_vocabulary df) t 0 = 3) = (t = ''[DAY]''))"
  proof cases
    case 4
    then show ?thesis using vocab_code_id [of df c] by (auto simp: str_int_reserved)
  qed (simp_all add: vocab_get_reserved)
  then show "(dict_get (create_vocabulary df) t 0 = 1) = (t = ''[CLS]'')"
    and "(dict_get (create_vocabulary df) t 0 = 2) = (t = ''[SEP]'')"
    and "(dict_get (create_vocabulary df) t 0 = 3) = (t = ''[DAY]'')" by simp_all
qed

lemma sep_before_day_code:
  assumes "\<forall>j. 0 < j \<and> Suc j < length xs \<and> xs ! Suc j = ''[DAY]'' \<longrightarrow> xs ! j = ''[SEP]''"
    and "t \<noteq> ''[DAY]''"
  shows "\<forall>j. 0 < j \<and> Suc j < length (xs @ [t]) \<and> (xs @ [t]) ! Suc j = ''[DAY]''
           \<longrightarrow> (xs @ [t]) ! j = ''[SEP]''"
proof (intro allI impI)
  fix j assume a: "0 < j \<and> Suc j < length (xs @ [t]) \<and> (xs @ [t]) ! Suc j = ''[DAY]''"
  show "(xs @ [t]) ! j = ''[SEP]''"
  proof (cases "Suc j < length xs")
    case True
    with a assms(1) show ?thesis by (simp add: nth_append)
  next
    case False
    with a have "Suc j = length xs" by simp
    with a assms(2) show ?thesis by (simp add: nth_append)
  qed
qed

lemma sep_before_day_boundary:
  assumes "\<forall>j. 0 < j \<and> Suc j < length xs \<and> xs ! Suc j = ''[DAY]'' \<longrightarrow> xs ! j = ''[SEP]''"
    and "xs \<noteq> []"
  shows "\<forall>j. 0 < j \<and> Suc j < length (xs @ [''[SEP]'', ''[DAY]''])
              \<and> (xs @ [''[SEP]'', ''[DAY]'']) ! Suc j = ''[DAY]''
           \<longrightarrow> (xs @ [''[SEP]'', ''[DAY]'']) ! j = ''[SEP]''"
proof (intro allI impI)
  fix j assume a: "0 < j \<and> Suc j < length (xs @ [''[SEP]'', ''[DAY]''])
              \<and> (xs @ [''[SEP]'', ''[DAY]'']) ! Suc j = ''[DAY]''"
  consider "Suc j < length xs" | "Suc j = length xs" | "j = length xs"
    using a by force
  then show "(xs @ [''[SEP]'', ''[DAY]'']) ! j = ''[SEP]''"
  proof cases
    case 1
    with a assms(1) show ?thesis by (simp add: nth_append)
  next
    case 2
    with a show ?thesis by (simp add: nth_append)
  next
    case 3
    then show ?thesis by (simp add: nth_append)
  qed
qed

lemma tokenize_loop_sep_before_day:
  assumes "\<forall>j. 0 < j \<and> Suc j < length toks \<and> toks ! Suc j = ''[DAY]'' \<longrightarrow> toks ! j = ''[SEP]''"
    and "toks \<noteq> []"
  shows "\<forall>j. 0 < j \<and> Suc j < length (tokenize_loop ps (Some c0) toks)
              \<and> tokenize_loop ps (Some c0) toks ! Suc j = ''[DAY]''
           \<longrightarrow> tokenize_loop ps (Some c0) toks ! j = ''[SEP]''"
  using assms
proof (induction ps arbitrary: c0 toks)
  case Nil
  then show ?case by simp
next
  case (Cons p ps)
  obtain d c where p: "p = (d, c)" by (cases p)
  show ?case
  proof (cases "d = c0")
    case True
    have "\<forall>j. 0 < j \<and> Suc j < length (toks @ [str_int c]) \<and> (toks @ [str_int c]) ! Suc j = ''[DAY]''
           \<longrightarrow> (toks @ [str_int c]) ! j = ''[SEP]''"
      by (rule sep_before_day_code [OF Cons.prems(1)]) (simp add: str_int_reserved)
    from Cons.IH [OF this, of c0] True show ?thesis by (simp add: p)
  next
    case False
    have 1: "\<forall>j. 0 < j \<and> Suc j < length (toks @ [''[SEP]'', ''[DAY]''])
              \<and> (toks @ [''[SEP]'', ''[DAY]'']) ! Suc j = ''[DAY]''
           \<longrightarrow> (toks @ [''[SEP]'', ''[DAY]'']) ! j = ''[SEP]''"
      by (rule sep_before_day_boundary [OF Cons.prems])
    have 2: "\<forall>j. 0 < j \<and> Suc j < length ((toks @ [''[SEP]'', ''[DAY]'']) @ [str_int c])
              \<and> ((toks @ [''[SEP]'', ''[DAY]'']) @ [str_int c]) ! Suc j = ''[DAY]''
           \<longrightarrow> ((toks @ [''[SEP]'', ''[DAY]'']) @ [str_int c]) ! j = ''[SEP]''"
      by (rule sep_before_day_code [OF 1]) (simp add: str_int_reserved)
    from Cons.IH [OF 2, of d] False show ?thesis by (simp add: p)
  qed
qed

lemma patient_tokens_sep_before_day:
  assumes "events \<noteq> []" and "length events = length dates"
  shows "patient_tokens events dates ! 1 = ''[DAY]''"
    and "\<forall>j. 0 < j \<and> Suc j < length (patient_tokens events dates)
              \<and> patient_tokens events dates ! Suc j = ''[DAY]''
           \<longrightarrow> patient_tokens events dates ! j = ''[SEP]''"
    and "1 < length (patient_tokens events dates)"
proof -
  from assms obtain d ds c cs where dates: "dates = d # ds" and events: "events = c # cs"
    by (cases dates; cases events) auto
  let ?start = "[''[CLS]'', ''[DAY]'', str_int c]"
  let ?body = "tokenize_loop (zip ds cs) (Some d) ?start"
  have pt: "patient_tokens events dates = ?body @ [''[SEP]'']"
    by (simp add: patient_tokens_def dates events)
  obtain more where more: "?body = ?start @ more"
    using tokenize_loop_prefix by blast
  show "patient_tokens events dates ! 1 = ''[DAY]''"
    by (simp add: pt more)
  show "1 < length (patient_tokens events dates)"
    by (simp add: pt more)
  have s: "\<forall>j. 0 < j \<and> Suc j < length ?start \<and> ?start ! Suc j = ''[DAY]'' \<longrightarrow> ?start ! j = ''[SEP]''"
  proof (intro allI impI)
    fix j assume "0 < j \<and> Suc j < length ?start \<and> ?start ! Suc j = ''[DAY]''"
    then have "j = 1" and "?start ! Suc j = ''[DAY]''" by auto
    then have "str_int c = ''[DAY]''" by simp
    then show "?start ! j = ''[SEP]''" by (simp add: str_int_reserved)
  qed
  have "\<forall>j. 0 < j \<and> Suc j < length ?body \<and> ?body ! Suc j = ''[DAY]'' \<longrightarrow> ?body ! j = ''[SEP]''"
    by (rule tokenize_loop_sep_before_day [OF s]) simp
  then have "\<forall>j. 0 < j \<and> Suc j < length (?body @ [''[SEP]''])
              \<and> (?body @ [''[SEP]'']) ! Suc j = ''[DAY]''
           \<longrightarrow> (?body @ [''[SEP]'']) ! j = ''[SEP]''"
    by (rule sep_before_day_code) simp
  then show "\<forall>j. 0 < j \<and> Suc j < length (patient_tokens events dates)
              \<and> patient_tokens events dates ! Suc j = ''[DAY]''
           \<longrightarrow> patient_tokens events dates ! j = ''[SEP]''"
    by (simp only: pt)
qed

section \<open>The structure of a tokenized sequence\<close>

text \<open>
  Claim C3. A patient is a person id of the event table, so it has at least one event: the
  assembler calls the tokenizer on the groups of \<^verbatim>\<open>groupby('person_id')\<close>, which are not
  empty (lemma \<open>group_nonempty\<close>). The events are parallel code and date
  sequences, sorted ascending by date; the vocabulary is the one built from any event table
  \<open>df\<close>. Then the untruncated token ids exist (no error), begin with the sequence-start id 1
  and end with the separator id 2; the day-boundary id 3 occurs once per distinct event date,
  and the separator id 2 occurs as many times as there are distinct event dates: the first
  day-boundary follows the start token, and every later day-boundary follows a separator. The
  remaining ids, in order, are the ids of the concept codes: the vocabulary id of the code, and the
  padding id 0 for a code absent from the vocabulary.
\<close>

theorem tokenize_structure:
  assumes "length events = length dates" and "sorted dates" and "events \<noteq> []"
  shows "\<exists>ids. token_ids (create_vocabulary df) (patient_tokens events dates) = Inr ids
           \<and> hd ids = 1 \<and> last ids = 2
           \<and> count_list ids 3 = card (set dates)
           \<and> count_list ids 2 = card (set dates)
           \<and> ids ! 1 = 3
           \<and> (\<forall>j. 0 < j \<and> Suc j < length ids \<and> ids ! Suc j = 3 \<longrightarrow> ids ! j = 2)
           \<and> filter (\<lambda>i. i \<noteq> 1 \<and> i \<noteq> 2 \<and> i \<noteq> 3) ids
               = map (\<lambda>c. dict_get (create_vocabulary df) (str_int c) 0) events"
proof -
  let ?V = "create_vocabulary df"
  let ?f = "\<lambda>t. dict_get ?V t 0"
  let ?toks = "patient_tokens events dates"
  have ne: "?toks \<noteq> []" by (rule patient_tokens_nonempty)
  have h: "hd (map ?f ?toks) = 1"
    using ne by (simp add: hd_map patient_tokens_hd vocab_get_reserved)
  have l: "last (map ?f ?toks) = 2"
    using ne by (simp add: last_map patient_tokens_last vocab_get_reserved)
  have d: "count_list (map ?f ?toks) 3 = card (set dates)"
  proof -
    have "count_list (map ?f ?toks) 3 = count_list ?toks ''[DAY]''"
      by (rule count_list_map_iff) (simp add: vocab_id_iff)
    then show ?thesis using assms by (simp add: patient_tokens_counts)
  qed
  have s: "count_list (map ?f ?toks) 2 = card (set dates)"
  proof -
    have "count_list (map ?f ?toks) 2 = count_list ?toks ''[SEP]''"
      by (rule count_list_map_iff) (simp add: vocab_id_iff)
    then show ?thesis using assms by (simp add: patient_tokens_counts)
  qed
  have c: "filter (\<lambda>i. i \<noteq> 1 \<and> i \<noteq> 2 \<and> i \<noteq> 3) (map ?f ?toks) = map (\<lambda>c. ?f (str_int c)) events"
  proof -
    have "filter (\<lambda>i. i \<noteq> 1 \<and> i \<noteq> 2 \<and> i \<noteq> 3) (map ?f ?toks)
        = map ?f (filter (\<lambda>t. ?f t \<noteq> 1 \<and> ?f t \<noteq> 2 \<and> ?f t \<noteq> 3) ?toks)"
      by (simp add: filter_map comp_def)
    also have "filter (\<lambda>t. ?f t \<noteq> 1 \<and> ?f t \<noteq> 2 \<and> ?f t \<noteq> 3) ?toks
        = filter (\<lambda>t. t \<noteq> ''[CLS]'' \<and> t \<noteq> ''[SEP]'' \<and> t \<noteq> ''[DAY]'') ?toks"
    proof (rule filter_cong)
      fix t assume "t \<in> set ?toks"
      from vocab_id_iff [OF this, of df]
      show "(?f t \<noteq> 1 \<and> ?f t \<noteq> 2 \<and> ?f t \<noteq> 3) = (t \<noteq> ''[CLS]'' \<and> t \<noteq> ''[SEP]'' \<and> t \<noteq> ''[DAY]'')"
        by simp
    qed simp
    also have "\<dots> = map str_int events" using assms(1) by (rule patient_tokens_codes)
    finally show ?thesis by (simp add: comp_def)
  qed
  have two: "1 < length ?toks"
    by (rule patient_tokens_sep_before_day(3) [OF assms(3) assms(1)])
  have f: "map ?f ?toks ! 1 = 3"
  proof -
    have "map ?f ?toks ! 1 = ?f (?toks ! 1)" using two by (rule nth_map)
    also have "\<dots> = ?f ''[DAY]''"
      by (simp only: patient_tokens_sep_before_day(1) [OF assms(3) assms(1)])
    also have "\<dots> = 3" by (simp add: vocab_get_reserved)
    finally show ?thesis .
  qed
  have b: "\<forall>j. 0 < j \<and> Suc j < length (map ?f ?toks) \<and> map ?f ?toks ! Suc j = 3
              \<longrightarrow> map ?f ?toks ! j = 2"
  proof (intro allI impI)
    fix j assume a: "0 < j \<and> Suc j < length (map ?f ?toks) \<and> map ?f ?toks ! Suc j = 3"
    from a have pos: "0 < j" by (rule conjunct1)
    from a have j: "Suc j < length ?toks" by simp
    then have j': "j < length ?toks" by simp
    from a j have v: "?f (?toks ! Suc j) = 3" by simp
    from j have "?toks ! Suc j \<in> set ?toks" by (rule nth_mem)
    from vocab_id_iff(3) [OF this, of df] v have day: "?toks ! Suc j = ''[DAY]''" by simp
    have "?toks ! j = ''[SEP]''"
      by (rule patient_tokens_sep_before_day(2) [OF assms(3) assms(1), rule_format])
        (intro conjI pos j day)
    then have "?f (?toks ! j) = 2" by (simp add: vocab_get_reserved)
    with j' show "map ?f ?toks ! j = 2" by simp
  qed
  show ?thesis
    unfolding token_ids_built
    by (intro exI conjI) (rule refl, fact h, fact l, fact d, fact s, fact f, fact b, fact c)
qed

lemmas eval_defs = create_vocabulary_def np_unique_def astype_int32_def enumerate_from0_def
  py_dict_def dict_merge_def dict_get_def str_int_def str_nat.simps digit_char_def
  patient_tokens_def token_ids_def example_events_def

text \<open>The scenario of the specification: codes 10 and 20 on the first day, 30 on the second.\<close>

theorem tokenize_structure_witness:
  "length [10, 20, 30::int] = length [0, 0, 86400::int] \<and> sorted [0, 0, 86400::int]
     \<and> [10, 20, 30::int] \<noteq> []
     \<and> token_ids (create_vocabulary example_events) (patient_tokens [10, 20, 30] [0, 0, 86400])
         = Inr [1, 3, 4, 5, 2, 3, 6, 2]
     \<and> card (set [0, 0, 86400::int]) = 2"
  using tokenize_structure [of "[10, 20, 30]" "[0, 0, 86400]" example_events]
  by (simp add: eval_defs)

text \<open>On empty arrays, which no group of the assembler gives, the tokenizer returns start,
  separator.\<close>

lemma tokenize_no_events:
  "token_ids (create_vocabulary example_events) (patient_tokens [] []) = Inr [1, 2]"
  by (simp add: eval_defs)

lemma tokenize_loop_same_date:
  "tokenize_loop (replicate n (d, c)) (Some d) toks = toks @ replicate n (str_int c)"
proof (induction n arbitrary: toks)
  case 0
  then show ?case by simp
next
  case (Suc n)
  have "tokenize_loop (replicate (Suc n) (d, c)) (Some d) toks
      = tokenize_loop (replicate n (d, c)) (Some d) (toks @ [str_int c])" by simp
  also have "\<dots> = (toks @ [str_int c]) @ replicate n (str_int c)" by (rule Suc.IH)
  also have "\<dots> = toks @ replicate (Suc n) (str_int c)" by simp
  finally show ?case .
qed

lemma patient_tokens_same_date:
  "patient_tokens (replicate (Suc n) c) (replicate (Suc n) d)
     = ''[CLS]'' # ''[DAY]'' # replicate (Suc n) (str_int c) @ [''[SEP]'']"
  by (simp add: patient_tokens_def tokenize_loop_same_date)

lemma py_suffix_max:
  "py_suffix MAX_SEQ_LENGTH xs = drop (length xs - MAX_SEQ_LENGTH) xs"
  by (simp add: py_suffix_def MAX_SEQ_LENGTH_def)

section \<open>Truncation\<close>

text \<open>
  Claim C4. For a vocabulary that has the padding token, the tokenizer returns a sequence
  \<open>out\<close>; with \<open>ids\<close> the untruncated sequence of length \<open>L\<close> and \<open>M\<close> the maximum sequence
  length: if \<open>L > M\<close> then \<open>out\<close> is the suffix of \<open>ids\<close> of length \<open>M\<close>, otherwise \<open>out\<close> is
  \<open>ids\<close>; in all cases \<open>out\<close> has length at most \<open>M\<close>.
\<close>

theorem truncation_keeps_suffix:
  assumes "map_of vocab ''[PAD]'' = Some pad"
  shows "\<exists>ids out. token_ids vocab (patient_tokens events dates) = Inr ids
           \<and> tokenize_patient_data events dates vocab = Inr out
           \<and> (MAX_SEQ_LENGTH < length ids \<longrightarrow>
                out = drop (length ids - MAX_SEQ_LENGTH) ids \<and> length out = MAX_SEQ_LENGTH)
           \<and> (length ids \<le> MAX_SEQ_LENGTH \<longrightarrow> out = ids)
           \<and> length out \<le> MAX_SEQ_LENGTH"
proof -
  let ?ids = "map (\<lambda>token. dict_get vocab token pad) (patient_tokens events dates)"
  have t: "token_ids vocab (patient_tokens events dates) = Inr ?ids"
    using assms by (simp add: token_ids_def patient_tokens_nonempty)
  then have o: "tokenize_patient_data events dates vocab
      = Inr (drop (length ?ids - MAX_SEQ_LENGTH) ?ids)"
    by (simp add: tokenize_patient_data_def py_suffix_max)
  show ?thesis
  proof (intro exI conjI)
    show "token_ids vocab (patient_tokens events dates) = Inr ?ids" by (rule t)
    show "tokenize_patient_data events dates vocab = Inr (drop (length ?ids - MAX_SEQ_LENGTH) ?ids)"
      by (rule o)
    show "MAX_SEQ_LENGTH < length ?ids \<longrightarrow>
        drop (length ?ids - MAX_SEQ_LENGTH) ?ids = drop (length ?ids - MAX_SEQ_LENGTH) ?ids
        \<and> length (drop (length ?ids - MAX_SEQ_LENGTH) ?ids) = MAX_SEQ_LENGTH"
      by simp
    show "length ?ids \<le> MAX_SEQ_LENGTH \<longrightarrow> drop (length ?ids - MAX_SEQ_LENGTH) ?ids = ?ids"
      by simp
    show "length (drop (length ?ids - MAX_SEQ_LENGTH) ?ids) \<le> MAX_SEQ_LENGTH"
      by simp
  qed
qed

lemma replicate_1100: "replicate 1100 x = replicate (Suc 1099) x"
  by simp


text \<open>A patient with 1100 events on one day (1103 tokens, of which the last 1024 are kept),
  and the short patient of the specification.\<close>

theorem truncation_keeps_suffix_witness:
  "map_of (create_vocabulary example_events) ''[PAD]'' = Some 0
     \<and> token_ids (create_vocabulary example_events)
          (patient_tokens (replicate 1100 10) (replicate 1100 0))
         = Inr (1 # 3 # replicate 1100 4 @ [2])
     \<and> tokenize_patient_data (replicate 1100 10) (replicate 1100 0)
          (create_vocabulary example_events) = Inr (replicate 1023 4 @ [2])
     \<and> tokenize_patient_data [10, 20, 30] [0, 0, 86400] (create_vocabulary example_events)
         = Inr [1, 3, 4, 5, 2, 3, 6, 2]"
proof -
  have v: "create_vocabulary example_events =
      [(''10'', 4), (''20'', 5), (''30'', 6), (''[PAD]'', 0), (''[CLS]'', 1), (''[SEP]'', 2), (''[DAY]'', 3)]"
    by (simp add: eval_defs)
  have p: "map_of (create_vocabulary example_events) ''[PAD]'' = Some 0"
    by (simp add: v)
  have i: "token_ids (create_vocabulary example_events)
          (patient_tokens (replicate 1100 10) (replicate 1100 0))
         = Inr (1 # 3 # replicate 1100 4 @ [2])"
    unfolding replicate_1100 patient_tokens_same_date v
    by (simp add: token_ids_def dict_get_def str_int_def str_nat.simps digit_char_def
        del: replicate_Suc)
  have s: "tokenize_patient_data [10, 20, 30] [0, 0, 86400] (create_vocabulary example_events)
         = Inr [1, 3, 4, 5, 2, 3, 6, 2]"
    unfolding v
    by (simp add: tokenize_patient_data_def py_suffix_def MAX_SEQ_LENGTH_def token_ids_def
        patient_tokens_def dict_get_def str_int_def str_nat.simps digit_char_def)
  let ?ids = "1 # 3 # replicate 1100 4 @ [2::nat]"
  have big: "MAX_SEQ_LENGTH < length ?ids" by (simp add: MAX_SEQ_LENGTH_def)
  have dr: "drop (length ?ids - MAX_SEQ_LENGTH) ?ids = replicate 1023 4 @ [2]"
    by (simp add: MAX_SEQ_LENGTH_def)
  from truncation_keeps_suffix [OF p, of "replicate 1100 10" "replicate 1100 0"]
  obtain ids out where
    t: "token_ids (create_vocabulary example_events)
          (patient_tokens (replicate 1100 10) (replicate 1100 0)) = Inr ids"
    and o: "tokenize_patient_data (replicate 1100 10) (replicate 1100 0)
          (create_vocabulary example_events) = Inr out"
    and m: "MAX_SEQ_LENGTH < length ids \<longrightarrow>
          out = drop (length ids - MAX_SEQ_LENGTH) ids \<and> length out = MAX_SEQ_LENGTH"
    by blast
  from t i have "ids = ?ids" by simp
  with m big dr have "out = replicate 1023 4 @ [2]" by simp
  with o have "tokenize_patient_data (replicate 1100 10) (replicate 1100 0)
          (create_vocabulary example_events) = Inr (replicate 1023 4 @ [2])" by simp
  with p i s show ?thesis by simp
qed

section \<open>The vocabulary: reserved ids and contiguous code ids\<close>

lemma astype_int32_id: "- 2147483648 \<le> c \<Longrightarrow> c < 2147483648 \<Longrightarrow> astype_int32 c = c"
  by (simp add: astype_int32_def)

lemma code_values_length:
  "length (code_values df) = card ((\<lambda>r. astype_int32 (concept_id r)) ` set df)"
proof -
  have "length (code_values df) = card (set (code_values df))"
    using code_values_sorted(2) [of df] by (simp add: distinct_card)
  then show ?thesis by (simp add: code_values_set)
qed

lemma code_values_of_set:
  "code_values df = sorted_list_of_set (astype_int32 ` concept_id ` set df)"
  by (simp add: code_values_def np_unique_def sorted_list_of_set_sort_remdups [symmetric] image_image)

lemma code_values_cong:
  "concept_id ` set df' = concept_id ` set df \<Longrightarrow> code_values df' = code_values df"
  by (simp add: code_values_of_set)

lemma vocab_code_keys_values:
  "snd ` {kv \<in> set (create_vocabulary df).
            fst kv \<notin> {''[PAD]'', ''[CLS]'', ''[SEP]'', ''[DAY]''}}
     = {4 ..< 4 + length (code_values df)}"
proof -
  let ?keys = "map str_int (code_values df)"
  let ?ids = "[4 ..< 4 + length (code_values df)]"
  have k: "\<And>kv. kv \<in> set (zip ?keys ?ids) \<Longrightarrow> fst kv \<notin> {''[PAD]'', ''[CLS]'', ''[SEP]'', ''[DAY]''}"
  proof -
    fix kv assume "kv \<in> set (zip ?keys ?ids)"
    then have "fst kv \<in> set ?keys" by (metis set_zip_leftD prod.collapse)
    then show "fst kv \<notin> {''[PAD]'', ''[CLS]'', ''[SEP]'', ''[DAY]''}"
      by (auto simp: str_int_reserved)
  qed
  have "{kv \<in> set (create_vocabulary df). fst kv \<notin> {''[PAD]'', ''[CLS]'', ''[SEP]'', ''[DAY]''}}
      = set (zip ?keys ?ids)"
    using k by (auto simp: create_vocabulary_eq)
  moreover have "snd ` set (zip ?keys ?ids) = set ?ids"
  proof -
    have "map snd (zip ?keys ?ids) = ?ids" by (simp add: map_snd_zip)
    then show ?thesis by (metis set_map)
  qed
  ultimately show ?thesis by simp
qed

text \<open>
  Claim C5, as amended. For every event table the built vocabulary maps the four reserved
  tokens to 0 (padding), 1 (sequence-start), 2 (separator) and 3 (day-boundary); its keys are
  distinct; the values of the other keys are exactly \<open>{4, \<dots>, 3 + k}\<close>, where \<open>k\<close> is the number
  of distinct values of the concept codes after the cast to 32-bit integers, the value at
  position \<open>i\<close> of the ascending order getting \<open>4 + i\<close>. When every concept code fits 32 bits,
  \<open>k\<close> is the number of distinct concept codes. Tables with the same codes give the same
  vocabulary, and the empty table gives the four reserved tokens only.
\<close>

theorem create_vocabulary_ids:
  "map_of (create_vocabulary df) ''[PAD]'' = Some 0
   \<and> map_of (create_vocabulary df) ''[CLS]'' = Some 1
   \<and> map_of (create_vocabulary df) ''[SEP]'' = Some 2
   \<and> map_of (create_vocabulary df) ''[DAY]'' = Some 3
   \<and> distinct (map fst (create_vocabulary df))
   \<and> length (create_vocabulary df) = 4 + length (code_values df)
   \<and> snd ` {kv \<in> set (create_vocabulary df).
               fst kv \<notin> {''[PAD]'', ''[CLS]'', ''[SEP]'', ''[DAY]''}}
       = {4 ..< 4 + length (code_values df)}
   \<and> sorted (code_values df) \<and> distinct (code_values df)
   \<and> (\<forall>i < length (code_values df).
         map_of (create_vocabulary df) (str_int (code_values df ! i)) = Some (4 + i))
   \<and> length (code_values df) = card ((\<lambda>r. astype_int32 (concept_id r)) ` set df)
   \<and> ((\<forall>r \<in> set df. - 2147483648 \<le> concept_id r \<and> concept_id r < 2147483648)
         \<longrightarrow> length (code_values df) = card (concept_id ` set df))
   \<and> (concept_id ` set df' = concept_id ` set df
         \<longrightarrow> create_vocabulary df' = create_vocabulary df)
   \<and> create_vocabulary ([] :: event list)
       = [(''[PAD]'', 0), (''[CLS]'', 1), (''[SEP]'', 2), (''[DAY]'', 3)]"
proof -
  have d: "distinct (map fst (create_vocabulary df))"
  proof -
    have "distinct (map str_int (code_values df))"
      by (rule str_int_distinct) (rule code_values_sorted)
    then show ?thesis by (auto simp: create_vocabulary_eq str_int_reserved)
  qed
  have r: "(\<forall>r \<in> set df. - 2147483648 \<le> concept_id r \<and> concept_id r < 2147483648)
         \<longrightarrow> length (code_values df) = card (concept_id ` set df)"
  proof
    assume a: "\<forall>r \<in> set df. - 2147483648 \<le> concept_id r \<and> concept_id r < 2147483648"
    have "(\<lambda>r. astype_int32 (concept_id r)) ` set df = concept_id ` set df"
      by (rule image_cong) (use a in \<open>simp_all add: astype_int32_id\<close>)
    then show "length (code_values df) = card (concept_id ` set df)"
      by (simp add: code_values_length)
  qed
  have c: "concept_id ` set df' = concept_id ` set df
         \<longrightarrow> create_vocabulary df' = create_vocabulary df"
  proof
    assume "concept_id ` set df' = concept_id ` set df"
    then have "code_values df' = code_values df" by (rule code_values_cong)
    then show "create_vocabulary df' = create_vocabulary df"
      by (simp add: create_vocabulary_eq)
  qed
  have e: "create_vocabulary ([] :: event list)
       = [(''[PAD]'', 0), (''[CLS]'', 1), (''[SEP]'', 2), (''[DAY]'', 3)]"
    by (simp add: eval_defs)
  have i: "\<forall>i < length (code_values df).
         map_of (create_vocabulary df) (str_int (code_values df ! i)) = Some (4 + i)"
    by (simp add: vocab_code add.commute)
  have l: "length (create_vocabulary df) = 4 + length (code_values df)"
    by (simp add: create_vocabulary_eq)
  show ?thesis
    by (intro conjI) (fact d r c e i l vocab_reserved code_values_sorted
      vocab_code_keys_values code_values_length)+
qed

text \<open>The vocabulary of the example table, and of the same table in reverse row order.\<close>

theorem create_vocabulary_ids_witness:
  "create_vocabulary example_events =
      [(''10'', 4), (''20'', 5), (''30'', 6), (''[PAD]'', 0), (''[CLS]'', 1), (''[SEP]'', 2), (''[DAY]'', 3)]
   \<and> code_values example_events = [10, 20, 30]
   \<and> create_vocabulary (rev example_events) = create_vocabulary example_events
   \<and> card (concept_id ` set example_events) = 3"
proof -
  have v: "create_vocabulary example_events =
      [(''10'', 4), (''20'', 5), (''30'', 6), (''[PAD]'', 0), (''[CLS]'', 1), (''[SEP]'', 2), (''[DAY]'', 3)]"
    by (simp add: eval_defs)
  have c: "code_values example_events = [10, 20, 30]"
    by (simp add: code_values_def eval_defs)
  have s: "concept_id ` set (rev example_events) = concept_id ` set example_events"
    by simp
  have b: "\<forall>r \<in> set example_events. - 2147483648 \<le> concept_id r \<and> concept_id r < 2147483648"
    by (simp add: example_events_def)
  from create_vocabulary_ids [of example_events "rev example_events"] s b
  have "length (code_values example_events) = card (concept_id ` set example_events)"
    and "create_vocabulary (rev example_events) = create_vocabulary example_events"
    by blast+
  with c v show ?thesis by simp
qed

text \<open>
  Claim C5 as stated, ids \<open>{4, \<dots>, 3 + k}\<close> for the \<open>k\<close> distinct concept codes of every event
  table, fails for codes that differ by a multiple of \<open>2^32\<close>: the cast
  \<^verbatim>\<open>astype(np.int32)\<close> maps the two codes 5 and 4294967301 to 5, and the vocabulary has the
  single code id 4.
\<close>

theorem create_vocabulary_int32_counterexample:
  "create_vocabulary
      [\<lparr>person_id = 1, concept_id = 5, event_date = 0\<rparr>,
       \<lparr>person_id = 1, concept_id = 4294967301, event_date = 0\<rparr>]
     = [(''5'', 4), (''[PAD]'', 0), (''[CLS]'', 1), (''[SEP]'', 2), (''[DAY]'', 3)]
   \<and> card (concept_id ` set
        [\<lparr>person_id = 1, concept_id = 5, event_date = 0\<rparr>,
         \<lparr>person_id = 1, concept_id = 4294967301, event_date = 0\<rparr>]) = 2
   \<and> (4294967301::int) = 2 ^ 32 + 5"
  by (simp add: eval_defs)

section \<open>The assembler\<close>

lemma traverse_map_Inr:
  "(\<And>x. x \<in> set xs \<Longrightarrow> f x = Inr (g x)) \<Longrightarrow> traverse f xs = Inr (map g xs)"
  by (induction xs) simp_all

lemma process_loop_prefix:
  fixes Tg :: "int \<times> int list \<times> int list \<times> cell \<Rightarrow> nat list"
  assumes tok: "\<And>g. g \<in> set gs \<Longrightarrow>
      tokenize_patient_data (fst (snd g)) (fst (snd (snd g))) vocab = Inr (Tg g)"
  shows "process_loop vocab (zip [length prev ..< length prev + length gs] gs)
           \<lparr>padded_sequences =
              map (\<lambda>g. take (min (length (Tg g)) MAX_SEQ_LENGTH) (Tg g)
                         @ drop (min (length (Tg g)) MAX_SEQ_LENGTH) Z) prev
                @ replicate (length gs) Z,
            mace_outcomes = map (\<lambda>g. snd (snd (snd g))) prev @ replicate (length gs) (Val 0),
            sample_ids = map (\<lambda>g. Some (fst g)) prev @ replicate (length gs) None,
            max_seq_length = mx\<rparr>
         = Inr \<lparr>padded_sequences =
              map (\<lambda>g. take (min (length (Tg g)) MAX_SEQ_LENGTH) (Tg g)
                         @ drop (min (length (Tg g)) MAX_SEQ_LENGTH) Z) (prev @ gs),
            mace_outcomes = map (\<lambda>g. snd (snd (snd g))) (prev @ gs),
            sample_ids = map (\<lambda>g. Some (fst g)) (prev @ gs),
            max_seq_length = fold (\<lambda>g m. max m (length (Tg g))) gs mx\<rparr>"
  using tok
proof (induction gs arbitrary: prev mx)
  case Nil
  then show ?case by simp
next
  case (Cons g gs)
  obtain pid ev dt mc where g: "g = (pid, ev, dt, mc)" by (cases g)
  have t: "tokenize_patient_data ev dt vocab = Inr (Tg g)"
    using Cons.prems [of g] by (simp add: g)
  have z: "zip [length prev ..< length prev + length (g # gs)] (g # gs)
      = (length prev, g) # zip [length (prev @ [g]) ..< length (prev @ [g]) + length gs] gs"
  proof -
    have "[length prev ..< length prev + length (g # gs)]
        = length prev # [Suc (length prev) ..< Suc (length prev) + length gs]"
      by (subst upt_conv_Cons) (simp_all del: upt_Suc)
    then show ?thesis by (simp del: upt_Suc)
  qed
  have ih: "process_loop vocab (zip [length (prev @ [g]) ..< length (prev @ [g]) + length gs] gs)
           \<lparr>padded_sequences =
              map (\<lambda>g. take (min (length (Tg g)) MAX_SEQ_LENGTH) (Tg g)
                         @ drop (min (length (Tg g)) MAX_SEQ_LENGTH) Z) (prev @ [g])
                @ replicate (length gs) Z,
            mace_outcomes = map (\<lambda>g. snd (snd (snd g))) (prev @ [g]) @ replicate (length gs) (Val 0),
            sample_ids = map (\<lambda>g. Some (fst g)) (prev @ [g]) @ replicate (length gs) None,
            max_seq_length = max mx (length (Tg g))\<rparr>
         = Inr \<lparr>padded_sequences =
              map (\<lambda>g. take (min (length (Tg g)) MAX_SEQ_LENGTH) (Tg g)
                         @ drop (min (length (Tg g)) MAX_SEQ_LENGTH) Z) ((prev @ [g]) @ gs),
            mace_outcomes = map (\<lambda>g. snd (snd (snd g))) ((prev @ [g]) @ gs),
            sample_ids = map (\<lambda>g. Some (fst g)) ((prev @ [g]) @ gs),
            max_seq_length = fold (\<lambda>g m. max m (length (Tg g))) gs (max mx (length (Tg g)))\<rparr>"
    by (rule Cons.IH) (use Cons.prems in simp)
  show ?case
    unfolding z
    using ih by (simp add: g t Let_def nth_append list_update_append)
qed

lemma merge_left_Nil: "merge_left lkey [] rkey right = []"
  by (simp add: merge_left_def)

lemma merge_left_Cons:
  "merge_left lkey (l # left) rkey right =
     (case filter (\<lambda>r. rkey r = lkey l) right of
        [] \<Rightarrow> [(l, None)]
      | ms \<Rightarrow> map (\<lambda>r. (l, Some r)) ms) @ merge_left lkey left rkey right"
  by (simp add: merge_left_def)

lemma merge_left_row_fst:
  "row \<in> set (case filter (\<lambda>r. rkey r = lkey l) right of
        [] \<Rightarrow> [(l, None)]
      | ms \<Rightarrow> map (\<lambda>r. (l, Some r)) ms) \<Longrightarrow> fst row = l"
  by (auto split: list.splits)

lemma merge_left_row_nonempty:
  "(case filter (\<lambda>r. rkey r = lkey l) right of
        [] \<Rightarrow> [(l, None)]
      | ms \<Rightarrow> map (\<lambda>r. (l, Some r)) ms) \<noteq> []"
  by (auto split: list.splits)

lemma merge_left_filter:
  "filter (\<lambda>row. P (fst row)) (merge_left lkey left rkey right)
     = merge_left lkey (filter P left) rkey right"
proof (induction left)
  case Nil
  then show ?case by (simp add: merge_left_Nil)
next
  case (Cons l left)
  let ?e = "case filter (\<lambda>r. rkey r = lkey l) right of
        [] \<Rightarrow> [(l, None)]
      | ms \<Rightarrow> map (\<lambda>r. (l, Some r)) ms"
  have e: "filter (\<lambda>row. P (fst row)) ?e = (if P l then ?e else [])"
    by (auto split: list.splits simp: filter_empty_conv)
  show ?case using Cons.IH by (simp add: merge_left_Cons e)
qed

lemma merge_left_fst_set: "fst ` set (merge_left lkey left rkey right) = set left"
proof (induction left)
  case Nil
  then show ?case by (simp add: merge_left_Nil)
next
  case (Cons l left)
  let ?e = "case filter (\<lambda>r. rkey r = lkey l) right of
        [] \<Rightarrow> [(l, None)]
      | ms \<Rightarrow> map (\<lambda>r. (l, Some r)) ms"
  have "fst ` set ?e = {l}"
  proof -
    have "?e \<noteq> []" by (rule merge_left_row_nonempty)
    then obtain x where "x \<in> set ?e" by (meson last_in_set)
    moreover have "\<forall>row \<in> set ?e. fst row = l" using merge_left_row_fst by fast
    ultimately show ?thesis by force
  qed
  then show ?case using Cons.IH by (simp add: merge_left_Cons image_Un)
qed

lemma merge_left_empty_iff: "merge_left lkey left rkey right = [] \<longleftrightarrow> left = []"
  by (cases left) (simp_all add: merge_left_Nil merge_left_Cons merge_left_row_nonempty)

lemma merge_left_replicate:
  "rkey r = lkey e \<Longrightarrow> merge_left lkey (replicate n e) rkey [r] = replicate n (e, Some r)"
  by (induction n) (simp_all add: merge_left_Nil merge_left_Cons)

subsection \<open>When the labeler returns\<close>

lemma calculate_mace_outcomes_cases:
  "calculate_mace_outcomes starts mace =
     (if table_rows starts \<noteq> [] \<and> date_dtype mace = Object \<and> date_dtype starts \<noteq> Object
      then Inl TypeError
      else Inr (label_frame (merge_left fst (table_rows starts) fst (table_rows mace))))"
  by (cases "date_dtype starts"; cases "date_dtype mace")
    (simp_all add: calculate_mace_outcomes_def loc_assign_datetime_def Let_def merge_left_empty_iff)

lemma calculate_mace_outcomes_returns:
  "(\<exists>labels. calculate_mace_outcomes starts mace = Inr labels)
     \<longleftrightarrow> table_rows starts = [] \<or> date_dtype starts = Object \<or> date_dtype mace \<noteq> Object"
  by (auto simp: calculate_mace_outcomes_cases)

lemma calculate_mace_outcomes_Inr:
  assumes "calculate_mace_outcomes starts mace = Inr labels"
  shows "labels = label_frame (merge_left fst (table_rows starts) fst (table_rows mace))"
  using assms by (simp add: calculate_mace_outcomes_cases split: if_splits)

lemma calculate_mace_outcomes_object:
  assumes "date_dtype starts = Object"
  shows "calculate_mace_outcomes starts mace
     = Inr (label_frame (merge_left fst (table_rows starts) fst (table_rows mace)))"
  using assms by (simp add: calculate_mace_outcomes_cases)

subsection \<open>The groups and the main loop\<close>

lemma prepare_data_persons: "person_id ` set (prepare_data data) = person_id ` set data"
  by (simp add: prepare_data_def image_image)

lemma merged_data_persons:
  "(\<lambda>row. person_id (fst row)) ` set (merged_data data labels) = person_id ` set data"
proof -
  have "(\<lambda>row. person_id (fst row)) ` set (merged_data data labels)
      = person_id ` fst ` set (merged_data data labels)" by (simp add: image_image)
  then show ?thesis by (simp add: merged_data_def merge_left_fst_set prepare_data_persons)
qed

lemma group_keys:
  "sort (remdups (map (\<lambda>row. person_id (fst row)) (merged_data data labels)))
     = sorted_list_of_set (person_id ` set data)"
proof -
  have "sort (remdups (map (\<lambda>row. person_id (fst row)) (merged_data data labels)))
      = sorted_list_of_set (set (map (\<lambda>row. person_id (fst row)) (merged_data data labels)))"
    by (simp only: sorted_list_of_set_sort_remdups)
  then show ?thesis by (simp add: merged_data_persons)
qed

lemma patient_ids_props:
  "distinct (sorted_list_of_set (person_id ` set data))"
  "sorted (sorted_list_of_set (person_id ` set data))"
  "set (sorted_list_of_set (person_id ` set data)) = person_id ` set data"
  "length (sorted_list_of_set (person_id ` set data)) = card (person_id ` set data)"
  by simp_all

lemma tokenize_built:
  "tokenize_patient_data events dates (create_vocabulary df)
     = Inr (py_suffix MAX_SEQ_LENGTH
              (map (\<lambda>t. dict_get (create_vocabulary df) t 0) (patient_tokens events dates)))"
  by (simp add: tokenize_patient_data_def token_ids_built)

lemma py_suffix_length: "length (py_suffix MAX_SEQ_LENGTH xs) = min (length xs) MAX_SEQ_LENGTH"
  by (simp add: py_suffix_def MAX_SEQ_LENGTH_def)

lemma process_patient_data_raises:
  "calculate_mace_outcomes starts mace = Inl e \<Longrightarrow> process_patient_data data starts mace = Inl e"
  by (simp add: process_patient_data_def)

lemma process_patient_data_eq:
  fixes data :: "event list" and starts mace :: dated_table
  assumes lab: "calculate_mace_outcomes starts mace = Inr labels"
  defines "rows \<equiv> merged_data data labels"
  defines "V \<equiv> create_vocabulary (prepare_data data)"
  defines "keys \<equiv> sorted_list_of_set (person_id ` set data)"
  defines "grp \<equiv> \<lambda>p. filter (\<lambda>row. person_id (fst row) = p) rows"
  defines "T \<equiv> \<lambda>p. py_suffix MAX_SEQ_LENGTH (map (\<lambda>t. dict_get V t 0)
      (patient_tokens (map (\<lambda>r. concept_id (fst r)) (grp p)) (map (\<lambda>r. event_date (fst r)) (grp p))))"
  shows "process_patient_data data starts mace =
     Inr \<lparr>sequences_npy = map (\<lambda>p. T p @ replicate (MAX_SEQ_LENGTH - length (T p)) 0) keys,
          lengths_npy = map (\<lambda>p. length (T p)) keys,
          outcomes_npy = map (\<lambda>p. mace_12m (hd (grp p))) keys,
          vocab_pkl = V,
          sample_id_to_index = zip (map Some keys) [0 ..< length keys],
          printed_max_sequence_length = fold (\<lambda>p m. max m (length (T p))) keys 0,
          n_patients = length keys\<rparr>"
proof -
  let ?G = "\<lambda>p. (p, map (\<lambda>r. concept_id (fst r)) (grp p), map (\<lambda>r. event_date (fst r)) (grp p),
      mace_12m (hd (grp p)))"
  let ?Tg = "\<lambda>g :: int \<times> int list \<times> int list \<times> cell. py_suffix MAX_SEQ_LENGTH (map (\<lambda>t. dict_get V t 0)
      (patient_tokens (fst (snd g)) (fst (snd (snd g)))))"
  have TG: "\<And>p. py_suffix MAX_SEQ_LENGTH (map (\<lambda>t. dict_get V t 0)
      (patient_tokens (map (\<lambda>r. concept_id (fst r)) (grp p)) (map (\<lambda>r. event_date (fst r)) (grp p))))
      = T p" by (simp add: T_def)
  have lenT: "\<And>p. length (T p) \<le> MAX_SEQ_LENGTH" by (simp add: T_def py_suffix_length)
  have gb: "groupby_person_id rows = map (\<lambda>name. (name, grp name)) keys"
    by (simp add: groupby_person_id_def grp_def keys_def rows_def group_keys)
  have ne: "\<And>p. p \<in> set keys \<Longrightarrow> grp p \<noteq> []"
  proof -
    fix p assume "p \<in> set keys"
    then have "p \<in> (\<lambda>row. person_id (fst row)) ` set rows"
      by (simp add: keys_def rows_def merged_data_persons)
    then show "grp p \<noteq> []" by (auto simp: grp_def filter_empty_conv)
  qed
  have grouped: "grouped_data rows = Inr (map ?G keys)"
  proof -
    have "traverse group_entry (map (\<lambda>name. (name, grp name)) keys)
        = Inr (map (\<lambda>x. ?G (fst x)) (map (\<lambda>name. (name, grp name)) keys))"
    proof (rule traverse_map_Inr)
      fix x assume "x \<in> set (map (\<lambda>name. (name, grp name)) keys)"
      then obtain p where p: "p \<in> set keys" "x = (p, grp p)" by auto
      from ne [OF p(1)] obtain row rest where "grp p = row # rest" by (cases "grp p") auto
      then show "group_entry x = Inr (?G (fst x))" by (simp add: group_entry_def p(2))
    qed
    then show ?thesis by (simp add: grouped_data_def gb comp_def)
  qed
  have tok: "\<And>g. tokenize_patient_data (fst (snd g)) (fst (snd (snd g))) V = Inr (?Tg g)"
    by (simp add: V_def tokenize_built)
  have loop: "process_loop V (enumerate_from0 (map ?G keys))
       \<lparr>padded_sequences = replicate (length keys) (replicate MAX_SEQ_LENGTH 0),
        mace_outcomes = replicate (length keys) (Val 0),
        sample_ids = replicate (length keys) None,
        max_seq_length = 0\<rparr>
     = Inr \<lparr>padded_sequences = map (\<lambda>p. T p @ replicate (MAX_SEQ_LENGTH - length (T p)) 0) keys,
            mace_outcomes = map (\<lambda>p. mace_12m (hd (grp p))) keys,
            sample_ids = map Some keys,
            max_seq_length = fold (\<lambda>p m. max m (length (T p))) keys 0\<rparr>"
  proof -
    note process_loop_prefix [where gs = "map ?G keys" and Tg = ?Tg and vocab = V
        and prev = "[]" and Z = "replicate MAX_SEQ_LENGTH 0" and mx = 0, OF tok]
    moreover have "\<And>p. take (min (length (T p)) MAX_SEQ_LENGTH) (T p)
                         @ drop (min (length (T p)) MAX_SEQ_LENGTH) (replicate MAX_SEQ_LENGTH 0)
        = T p @ replicate (MAX_SEQ_LENGTH - length (T p)) 0"
      using lenT by (simp add: min_absorb1)
    ultimately show ?thesis
      by (simp add: enumerate_from0_def comp_def TG fold_map)
  qed
  have "traverse (input_length V) (map ?G keys) = Inr (map (\<lambda>g. length (?Tg g)) (map ?G keys))"
  proof (rule traverse_map_Inr)
    fix g :: "int \<times> int list \<times> int list \<times> cell"
    obtain a b c d where g: "g = (a, b, c, d)" by (cases g)
    have "tokenize_patient_data b c V = Inr (?Tg g)" using tok [of g] by (simp add: g)
    then show "input_length V g = Inr (length (?Tg g))"
      by (simp add: input_length_def g py_suffix_length)
  qed
  then have lens: "traverse (input_length V) (map ?G keys) = Inr (map (\<lambda>p. length (T p)) keys)"
    by (simp add: comp_def TG)
  have dict: "py_dict (zip (map Some keys) [0 ..< length keys]) = zip (map Some keys) [0 ..< length keys]"
    by (rule py_dict_distinct) (simp add: keys_def distinct_map)
  show ?thesis
    unfolding process_patient_data_def lab sum.case Let_def V_def [symmetric] rows_def [symmetric]
    by (simp add: grouped loop lens dict)
qed

lemma zip_index_lookup:
  "distinct ks \<Longrightarrow> i < length ks \<Longrightarrow> map_of (zip ks [0 ..< length ks]) (ks ! i) = Some i"
  using map_of_zip_nth [of ks "[0 ..< length ks]" i] by simp

lemma zip_index_bij:
  assumes "distinct ks"
  shows "bij_betw (map_of (zip ks [0 ..< length ks])) (set ks) (Some ` {0 ..< length ks})"
  unfolding bij_betw_def
proof
  show "inj_on (map_of (zip ks [0 ..< length ks])) (set ks)"
  proof (rule inj_onI)
    fix x y assume "x \<in> set ks" "y \<in> set ks"
      and e: "map_of (zip ks [0 ..< length ks]) x = map_of (zip ks [0 ..< length ks]) y"
    then obtain i j where i: "i < length ks" "ks ! i = x" and j: "j < length ks" "ks ! j = y"
      by (auto simp: in_set_conv_nth)
    from zip_index_lookup [OF assms i(1)] zip_index_lookup [OF assms j(1)] e i(2) j(2)
    have "i = j" by simp
    with i j show "x = y" by simp
  qed
  show "map_of (zip ks [0 ..< length ks]) ` set ks = Some ` {0 ..< length ks}"
  proof (rule set_eqI)
    fix v
    show "v \<in> map_of (zip ks [0 ..< length ks]) ` set ks \<longleftrightarrow> v \<in> Some ` {0 ..< length ks}"
    proof
      assume "v \<in> map_of (zip ks [0 ..< length ks]) ` set ks"
      then obtain i where "i < length ks" "v = map_of (zip ks [0 ..< length ks]) (ks ! i)"
        by (auto simp: in_set_conv_nth)
      then show "v \<in> Some ` {0 ..< length ks}"
        using zip_index_lookup [OF assms] by simp
    next
      assume "v \<in> Some ` {0 ..< length ks}"
      then obtain i where i: "i < length ks" "v = Some i" by auto
      then have "v = map_of (zip ks [0 ..< length ks]) (ks ! i)"
        using zip_index_lookup [OF assms] by simp
      with i(1) show "v \<in> map_of (zip ks [0 ..< length ks]) ` set ks"
        by (simp add: nth_mem)
    qed
  qed
qed

lemma fold_max_Max:
  "fold (\<lambda>x m. max m (f x)) xs (a::nat) = Max (insert a (f ` set xs))"
proof (induction xs arbitrary: a)
  case Nil
  then show ?case by simp
next
  case (Cons x xs)
  have "Max (insert (max a (f x)) (f ` set xs)) = Max (insert a (insert (f x) (f ` set xs)))"
  proof (cases "f ` set xs = {}")
    case True
    then show ?thesis by (simp add: max.commute)
  next
    case False
    then show ?thesis by (simp add: max.assoc)
  qed
  with Cons.IH [of "max a (f x)"] show ?case by simp
qed

lemma process_patient_data_rows:
  assumes lab: "calculate_mace_outcomes starts mace = Inr labels"
  shows "\<exists>r. process_patient_data data starts mace = Inr r
     \<and> vocab_pkl r = create_vocabulary (prepare_data data)
     \<and> n_patients r = card (person_id ` set data)
     \<and> length (sequences_npy r) = card (person_id ` set data)
     \<and> length (outcomes_npy r) = card (person_id ` set data)
     \<and> length (lengths_npy r) = card (person_id ` set data)
     \<and> sample_id_to_index r
           = zip (map Some (sorted_list_of_set (person_id ` set data)))
               [0 ..< card (person_id ` set data)]
     \<and> printed_max_sequence_length r = Max (insert 0 (set (lengths_npy r)))
     \<and> (\<forall>i < card (person_id ` set data). \<exists>row rest ids.
           filter (\<lambda>row. person_id (fst row) = sorted_list_of_set (person_id ` set data) ! i)
             (merged_data data labels) = row # rest
         \<and> token_ids (create_vocabulary (prepare_data data))
               (patient_tokens (map (\<lambda>r. concept_id (fst r)) (row # rest))
                  (map (\<lambda>r. event_date (fst r)) (row # rest))) = Inr ids
         \<and> tokenize_patient_data (map (\<lambda>r. concept_id (fst r)) (row # rest))
               (map (\<lambda>r. event_date (fst r)) (row # rest))
               (create_vocabulary (prepare_data data)) = Inr (py_suffix MAX_SEQ_LENGTH ids)
         \<and> sequences_npy r ! i
               = py_suffix MAX_SEQ_LENGTH ids
                   @ replicate (MAX_SEQ_LENGTH - min (length ids) MAX_SEQ_LENGTH) 0
         \<and> lengths_npy r ! i = min (length ids) MAX_SEQ_LENGTH
         \<and> outcomes_npy r ! i = mace_12m row)"
proof -
  let ?rows = "merged_data data labels"
  let ?V = "create_vocabulary (prepare_data data)"
  let ?keys = "sorted_list_of_set (person_id ` set data)"
  let ?grp = "\<lambda>p. filter (\<lambda>row. person_id (fst row) = p) ?rows"
  let ?I = "\<lambda>p. map (\<lambda>t. dict_get ?V t 0)
      (patient_tokens (map (\<lambda>r. concept_id (fst r)) (?grp p)) (map (\<lambda>r. event_date (fst r)) (?grp p)))"
  let ?T = "\<lambda>p. py_suffix MAX_SEQ_LENGTH (?I p)"
  let ?r = "\<lparr>sequences_npy = map (\<lambda>p. ?T p @ replicate (MAX_SEQ_LENGTH - length (?T p)) 0) ?keys,
          lengths_npy = map (\<lambda>p. length (?T p)) ?keys,
          outcomes_npy = map (\<lambda>p. mace_12m (hd (?grp p))) ?keys,
          vocab_pkl = ?V,
          sample_id_to_index = zip (map Some ?keys) [0 ..< length ?keys],
          printed_max_sequence_length = fold (\<lambda>p m. max m (length (?T p))) ?keys 0,
          n_patients = length ?keys\<rparr>"
  have eq: "process_patient_data data starts mace = Inr ?r"
    by (rule process_patient_data_eq [OF lab])
  have n: "length ?keys = card (person_id ` set data)" by simp
  have mx: "fold (\<lambda>p m. max m (length (?T p))) ?keys 0
      = Max (insert 0 (set (map (\<lambda>p. length (?T p)) ?keys)))"
    by (simp only: fold_max_Max set_map)
  have rowsP: "\<forall>i < card (person_id ` set data). \<exists>row rest ids.
           ?grp (?keys ! i) = row # rest
         \<and> token_ids ?V (patient_tokens (map (\<lambda>r. concept_id (fst r)) (row # rest))
                  (map (\<lambda>r. event_date (fst r)) (row # rest))) = Inr ids
         \<and> tokenize_patient_data (map (\<lambda>r. concept_id (fst r)) (row # rest))
               (map (\<lambda>r. event_date (fst r)) (row # rest)) ?V = Inr (py_suffix MAX_SEQ_LENGTH ids)
         \<and> map (\<lambda>p. ?T p @ replicate (MAX_SEQ_LENGTH - length (?T p)) 0) ?keys ! i
              = py_suffix MAX_SEQ_LENGTH ids
                   @ replicate (MAX_SEQ_LENGTH - min (length ids) MAX_SEQ_LENGTH) 0
         \<and> map (\<lambda>p. length (?T p)) ?keys ! i = min (length ids) MAX_SEQ_LENGTH
         \<and> map (\<lambda>p. mace_12m (hd (?grp p))) ?keys ! i = mace_12m row"
  proof (intro allI impI)
    fix i assume "i < card (person_id ` set data)"
    then have i: "i < length ?keys" by simp
    let ?p = "?keys ! i"
    have pin: "?p \<in> person_id ` set data"
      using nth_mem [OF i] by (simp only: patient_ids_props)
    then have "?p \<in> (\<lambda>row. person_id (fst row)) ` set ?rows"
      by (simp only: merged_data_persons)
    then have "?grp ?p \<noteq> []" by (force simp: filter_empty_conv)
    then obtain row rest where g: "?grp ?p = row # rest" by (cases "?grp ?p") auto
    have ti: "token_ids ?V (patient_tokens (map (\<lambda>r. concept_id (fst r)) (?grp ?p))
               (map (\<lambda>r. event_date (fst r)) (?grp ?p))) = Inr (?I ?p)"
      by (rule token_ids_built)
    have t: "tokenize_patient_data (map (\<lambda>r. concept_id (fst r)) (?grp ?p))
               (map (\<lambda>r. event_date (fst r)) (?grp ?p)) ?V = Inr (?T ?p)"
      by (rule tokenize_built)
    have len: "length (?T ?p) = min (length (?I ?p)) MAX_SEQ_LENGTH"
      by (rule py_suffix_length)
    show "\<exists>row rest ids.
           ?grp (?keys ! i) = row # rest
         \<and> token_ids ?V (patient_tokens (map (\<lambda>r. concept_id (fst r)) (row # rest))
                  (map (\<lambda>r. event_date (fst r)) (row # rest))) = Inr ids
         \<and> tokenize_patient_data (map (\<lambda>r. concept_id (fst r)) (row # rest))
               (map (\<lambda>r. event_date (fst r)) (row # rest)) ?V = Inr (py_suffix MAX_SEQ_LENGTH ids)
         \<and> map (\<lambda>p. ?T p @ replicate (MAX_SEQ_LENGTH - length (?T p)) 0) ?keys ! i
              = py_suffix MAX_SEQ_LENGTH ids
                   @ replicate (MAX_SEQ_LENGTH - min (length ids) MAX_SEQ_LENGTH) 0
         \<and> map (\<lambda>p. length (?T p)) ?keys ! i = min (length ids) MAX_SEQ_LENGTH
         \<and> map (\<lambda>p. mace_12m (hd (?grp p))) ?keys ! i = mace_12m row"
    proof (intro exI conjI)
      show "?grp ?p = row # rest" by (rule g)
      show "token_ids ?V (patient_tokens (map (\<lambda>r. concept_id (fst r)) (row # rest))
                  (map (\<lambda>r. event_date (fst r)) (row # rest))) = Inr (?I ?p)"
        using ti by (simp only: g)
      show "tokenize_patient_data (map (\<lambda>r. concept_id (fst r)) (row # rest))
               (map (\<lambda>r. event_date (fst r)) (row # rest)) ?V = Inr (py_suffix MAX_SEQ_LENGTH (?I ?p))"
        using t by (simp only: g)
      show "map (\<lambda>p. ?T p @ replicate (MAX_SEQ_LENGTH - length (?T p)) 0) ?keys ! i
              = py_suffix MAX_SEQ_LENGTH (?I ?p)
                   @ replicate (MAX_SEQ_LENGTH - min (length (?I ?p)) MAX_SEQ_LENGTH) 0"
        using i by (simp only: nth_map len)
      show "map (\<lambda>p. length (?T p)) ?keys ! i = min (length (?I ?p)) MAX_SEQ_LENGTH"
        using i by (simp only: nth_map len)
      show "map (\<lambda>p. mace_12m (hd (?grp p))) ?keys ! i = mace_12m row"
        using i by (simp add: g)
    qed
  qed
  show ?thesis
  proof (intro exI conjI)
    show "process_patient_data data starts mace = Inr ?r" by (rule eq)
    show "printed_max_sequence_length ?r = Max (insert 0 (set (lengths_npy ?r)))"
      using mx by simp
  qed (use rowsP in \<open>simp_all\<close>)
qed

subsection \<open>The assembler on the example tables\<close>

lemma example_prepare:
  "prepare_data example_table =
     [\<lparr>person_id = 1, concept_id = 10, event_date = 0\<rparr>,
      \<lparr>person_id = 2, concept_id = 10, event_date = 0\<rparr>,
      \<lparr>person_id = 2, concept_id = 20, event_date = 0\<rparr>,
      \<lparr>person_id = 2, concept_id = 30, event_date = 86400\<rparr>]"
  by (simp add: prepare_data_def example_table_def astype_int32_def)

lemma example_labels:
  "calculate_mace_outcomes example_starts example_mace = Inr [(2, 1)]"
  by (simp add: calculate_mace_outcomes_def loc_assign_datetime_def label_frame_def merge_left_def
      example_starts_def example_mace_def
      days_to_mace_def first_mace_date_def index_date_def td_days_def)

lemma example_merged:
  "merged_data example_table [(2, 1)] =
     [(\<lparr>person_id = 1, concept_id = 10, event_date = 0\<rparr>, None),
      (\<lparr>person_id = 2, concept_id = 10, event_date = 0\<rparr>, Some (2, 1)),
      (\<lparr>person_id = 2, concept_id = 20, event_date = 0\<rparr>, Some (2, 1)),
      (\<lparr>person_id = 2, concept_id = 30, event_date = 86400\<rparr>, Some (2, 1))]"
  by (simp add: merged_data_def example_prepare merge_left_def)

lemma example_vocab:
  "create_vocabulary (prepare_data example_table) =
     [(''10'', 4), (''20'', 5), (''30'', 6),
      (''[PAD]'', 0), (''[CLS]'', 1), (''[SEP]'', 2), (''[DAY]'', 3)]"
  by (simp add: example_prepare eval_defs)

lemma example_grouped:
  "grouped_data (merged_data example_table [(2, 1)]) =
     Inr [(1, [10], [0], NaN), (2, [10, 20, 30], [0, 0, 86400], Val 1)]"
  by (simp add: example_merged grouped_data_def groupby_person_id_def group_entry_def mace_12m_def)

lemma example_tokens:
  "tokenize_patient_data [10] [0] (create_vocabulary (prepare_data example_table)) = Inr [1, 3, 4, 2]"
  "tokenize_patient_data [10, 20, 30] [0, 0, 86400] (create_vocabulary (prepare_data example_table))
     = Inr [1, 3, 4, 5, 2, 3, 6, 2]"
  by (simp_all add: example_vocab tokenize_patient_data_def token_ids_def patient_tokens_def
      dict_get_def py_suffix_def MAX_SEQ_LENGTH_def str_int_def str_nat.simps digit_char_def)

lemma replicate_two: "replicate 2 x = [x, x]"
  by (simp add: numeral_2_eq_2)

lemma example_loop:
  "process_loop (create_vocabulary (prepare_data example_table))
     (enumerate_from0 [(1, [10], [0], NaN), (2, [10, 20, 30], [0, 0, 86400], Val 1)])
     \<lparr>padded_sequences = replicate 2 (replicate MAX_SEQ_LENGTH 0),
      mace_outcomes = replicate 2 (Val 0),
      sample_ids = replicate 2 None,
      max_seq_length = 0\<rparr>
   = Inr \<lparr>padded_sequences = [[1, 3, 4, 2] @ replicate 1020 0,
                                  [1, 3, 4, 5, 2, 3, 6, 2] @ replicate 1016 0],
          mace_outcomes = [NaN, Val 1],
          sample_ids = [Some 1, Some 2],
          max_seq_length = 8\<rparr>"
  by (simp add: enumerate_from0_def example_tokens MAX_SEQ_LENGTH_def replicate_two)

lemma example_lens:
  "traverse (input_length (create_vocabulary (prepare_data example_table)))
     [(1, [10], [0], NaN), (2, [10, 20, 30], [0, 0, 86400], Val 1)] = Inr [4, 8]"
  by (simp add: input_length_def example_tokens MAX_SEQ_LENGTH_def)

lemma example_run:
  "process_patient_data example_table example_starts example_mace =
     Inr \<lparr>sequences_npy = [[1, 3, 4, 2] @ replicate 1020 0,
                           [1, 3, 4, 5, 2, 3, 6, 2] @ replicate 1016 0],
          lengths_npy = [4, 8],
          outcomes_npy = [NaN, Val 1],
          vocab_pkl = [(''10'', 4), (''20'', 5), (''30'', 6),
                       (''[PAD]'', 0), (''[CLS]'', 1), (''[SEP]'', 2), (''[DAY]'', 3)],
          sample_id_to_index = [(Some 1, 0), (Some 2, 1)],
          printed_max_sequence_length = 8,
          n_patients = 2\<rparr>"
proof -
  have two: "length [(1::int, [10::int], [0::int], NaN), (2, [10, 20, 30], [0, 0, 86400], Val 1)] = 2"
    by simp
  have d: "py_dict (zip [Some (1::int), Some 2] [0 ..< length [Some (1::int), Some 2]])
      = [(Some 1, 0), (Some 2, 1)]"
    by (simp add: py_dict_def dict_merge_def upt_rec)
  show ?thesis
    unfolding process_patient_data_def example_labels sum.case Let_def example_grouped two
      example_loop example_lens arrays.simps d
    by (simp add: example_vocab)
qed

lemma group_events:
  "fst ` set (filter (\<lambda>row. person_id (fst row) = p) (merged_data data labels))
     = {e \<in> set (prepare_data data). person_id e = p}"
proof -
  have "filter (\<lambda>row. person_id (fst row) = p) (merged_data data labels)
      = merge_left person_id (filter (\<lambda>e. person_id e = p) (prepare_data data)) fst labels"
    unfolding merged_data_def by (rule merge_left_filter)
  then show ?thesis by (simp add: merge_left_fst_set)
qed

lemma group_nonempty:
  assumes "p \<in> person_id ` set data"
  shows "filter (\<lambda>row. person_id (fst row) = p) (merged_data data labels) \<noteq> []"
proof -
  from assms have "p \<in> (\<lambda>row. person_id (fst row)) ` set (merged_data data labels)"
    by (simp only: merged_data_persons)
  then show ?thesis by (force simp: filter_empty_conv)
qed

section \<open>Row alignment\<close>

text \<open>
  Claim C1. An invocation of \<^verbatim>\<open>process_patient_data\<close> returns whenever its call of the
  labeler returns (lemma \<open>calculate_mace_outcomes_returns\<close> says when; otherwise the invocation
  raises the labeler's \<^verbatim>\<open>TypeError\<close> and produces no array, lemma
  \<open>process_patient_data_raises\<close>); \<open>labels\<close> is the label frame the labeler returns. With \<open>N\<close>
  the number of distinct person ids of the event table, the token matrix, the outcome array,
  the valid-length array and the id-to-index mapping all have \<open>N\<close> entries. The mapping has distinct
  keys, the person ids of the event table, and the values \<open>0, \<dots>, N - 1\<close> in order: it is a
  bijection from the person ids onto \<open>{0, \<dots>, N - 1}\<close>. For every \<open>i < N\<close>, the person id \<open>p\<close> that
  the mapping sends to \<open>i\<close> is the patient whose group of event rows (its events are exactly the
  events of \<open>p\<close> in the sorted table) is tokenized into row \<open>i\<close> of the token matrix (followed
  by padding), whose token count is entry \<open>i\<close> of the
  valid-length array, and whose label (that of the first row of the group) is entry \<open>i\<close> of the
  outcome array.
\<close>

theorem assembler_row_alignment:
  assumes lab: "calculate_mace_outcomes starts mace = Inr labels"
  shows "\<exists>r. process_patient_data data starts mace = Inr r
     \<and> n_patients r = card (person_id ` set data)
     \<and> length (sequences_npy r) = card (person_id ` set data)
     \<and> length (outcomes_npy r) = card (person_id ` set data)
     \<and> length (lengths_npy r) = card (person_id ` set data)
     \<and> length (sample_id_to_index r) = card (person_id ` set data)
     \<and> map snd (sample_id_to_index r) = [0 ..< card (person_id ` set data)]
     \<and> distinct (map fst (sample_id_to_index r))
     \<and> fst ` set (sample_id_to_index r) = Some ` person_id ` set data
     \<and> bij_betw (map_of (sample_id_to_index r)) (Some ` person_id ` set data)
           (Some ` {0 ..< card (person_id ` set data)})
     \<and> (\<forall>i < card (person_id ` set data). \<exists>p row rest toks.
           p \<in> person_id ` set data
         \<and> sample_id_to_index r ! i = (Some p, i)
         \<and> map_of (sample_id_to_index r) (Some p) = Some i
         \<and> filter (\<lambda>row. person_id (fst row) = p) (merged_data data labels) = row # rest
         \<and> fst ` set (row # rest) = {e \<in> set (prepare_data data). person_id e = p}
         \<and> tokenize_patient_data (map (\<lambda>r. concept_id (fst r)) (row # rest))
               (map (\<lambda>r. event_date (fst r)) (row # rest)) (vocab_pkl r) = Inr toks
         \<and> sequences_npy r ! i = toks @ replicate (MAX_SEQ_LENGTH - length toks) 0
         \<and> lengths_npy r ! i = length toks
         \<and> outcomes_npy r ! i = mace_12m row)"
proof -
  let ?P = "person_id ` set data"
  let ?keys = "sorted_list_of_set ?P"
  let ?m = "zip (map Some ?keys) [0 ..< card ?P]"
  from process_patient_data_rows [OF lab, where data = data] obtain r where
    run: "process_patient_data data starts mace = Inr r"
    and v: "vocab_pkl r = create_vocabulary (prepare_data data)"
    and np: "n_patients r = card ?P"
    and l1: "length (sequences_npy r) = card ?P"
    and l2: "length (outcomes_npy r) = card ?P"
    and l3: "length (lengths_npy r) = card ?P"
    and m: "sample_id_to_index r = ?m"
    and rowsP: "\<forall>i < card ?P. \<exists>row rest ids.
           filter (\<lambda>row. person_id (fst row) = ?keys ! i) (merged_data data labels) = row # rest
         \<and> token_ids (create_vocabulary (prepare_data data))
               (patient_tokens (map (\<lambda>r. concept_id (fst r)) (row # rest))
                  (map (\<lambda>r. event_date (fst r)) (row # rest))) = Inr ids
         \<and> tokenize_patient_data (map (\<lambda>r. concept_id (fst r)) (row # rest))
               (map (\<lambda>r. event_date (fst r)) (row # rest))
               (create_vocabulary (prepare_data data)) = Inr (py_suffix MAX_SEQ_LENGTH ids)
         \<and> sequences_npy r ! i
               = py_suffix MAX_SEQ_LENGTH ids
                   @ replicate (MAX_SEQ_LENGTH - min (length ids) MAX_SEQ_LENGTH) 0
         \<and> lengths_npy r ! i = min (length ids) MAX_SEQ_LENGTH
         \<and> outcomes_npy r ! i = mace_12m row"
    by blast
  have n: "length ?keys = card ?P" by simp
  have dk: "distinct (map Some ?keys)" by (simp add: distinct_map)
  have lm: "length (map Some ?keys) = card ?P" by simp
  have m': "?m = zip (map Some ?keys) [0 ..< length (map Some ?keys)]" by (simp only: lm)
  have sk: "set (map Some ?keys) = Some ` ?P" by simp
  have c1: "length (sample_id_to_index r) = card ?P" by (simp add: m)
  have c2: "map snd (sample_id_to_index r) = [0 ..< card ?P]" by (simp add: m)
  have c3: "distinct (map fst (sample_id_to_index r))" using dk by (simp add: m)
  have c4: "fst ` set (sample_id_to_index r) = Some ` ?P"
  proof -
    have "map fst ?m = map Some ?keys" by simp
    then have "fst ` set ?m = set (map Some ?keys)" by (metis set_map)
    then show ?thesis by (simp add: m)
  qed
  have c5: "bij_betw (map_of (sample_id_to_index r)) (Some ` ?P) (Some ` {0 ..< card ?P})"
    using zip_index_bij [OF dk] by (simp only: m m' [symmetric] sk lm)
  have c6: "\<forall>i < card ?P. \<exists>p row rest toks.
           p \<in> ?P
         \<and> sample_id_to_index r ! i = (Some p, i)
         \<and> map_of (sample_id_to_index r) (Some p) = Some i
         \<and> filter (\<lambda>row. person_id (fst row) = p) (merged_data data labels) = row # rest
         \<and> fst ` set (row # rest) = {e \<in> set (prepare_data data). person_id e = p}
         \<and> tokenize_patient_data (map (\<lambda>r. concept_id (fst r)) (row # rest))
               (map (\<lambda>r. event_date (fst r)) (row # rest)) (vocab_pkl r) = Inr toks
         \<and> sequences_npy r ! i = toks @ replicate (MAX_SEQ_LENGTH - length toks) 0
         \<and> lengths_npy r ! i = length toks
         \<and> outcomes_npy r ! i = mace_12m row"
  proof (intro allI impI)
    fix i assume iN: "i < card ?P"
    then have i: "i < length ?keys" by simp
    from rowsP iN obtain row rest ids where
      g: "filter (\<lambda>row. person_id (fst row) = ?keys ! i) (merged_data data labels) = row # rest"
      and t: "tokenize_patient_data (map (\<lambda>r. concept_id (fst r)) (row # rest))
               (map (\<lambda>r. event_date (fst r)) (row # rest))
               (create_vocabulary (prepare_data data)) = Inr (py_suffix MAX_SEQ_LENGTH ids)"
      and s: "sequences_npy r ! i
               = py_suffix MAX_SEQ_LENGTH ids
                   @ replicate (MAX_SEQ_LENGTH - min (length ids) MAX_SEQ_LENGTH) 0"
      and l: "lengths_npy r ! i = min (length ids) MAX_SEQ_LENGTH"
      and o: "outcomes_npy r ! i = mace_12m row"
      by blast
    have pin: "?keys ! i \<in> ?P" using nth_mem [OF i] by (simp only: patient_ids_props)
    have lk: "map_of ?m (Some (?keys ! i)) = Some i"
      using zip_index_lookup [OF dk, of i] i by (simp add: lm)
    show "\<exists>p row rest toks.
           p \<in> ?P
         \<and> sample_id_to_index r ! i = (Some p, i)
         \<and> map_of (sample_id_to_index r) (Some p) = Some i
         \<and> filter (\<lambda>row. person_id (fst row) = p) (merged_data data labels) = row # rest
         \<and> fst ` set (row # rest) = {e \<in> set (prepare_data data). person_id e = p}
         \<and> tokenize_patient_data (map (\<lambda>r. concept_id (fst r)) (row # rest))
               (map (\<lambda>r. event_date (fst r)) (row # rest)) (vocab_pkl r) = Inr toks
         \<and> sequences_npy r ! i = toks @ replicate (MAX_SEQ_LENGTH - length toks) 0
         \<and> lengths_npy r ! i = length toks
         \<and> outcomes_npy r ! i = mace_12m row"
    proof (intro exI conjI)
      show "?keys ! i \<in> ?P" by (rule pin)
      show "sample_id_to_index r ! i = (Some (?keys ! i), i)" using i by (simp add: m)
      show "map_of (sample_id_to_index r) (Some (?keys ! i)) = Some i" using lk by (simp only: m)
      show "filter (\<lambda>row. person_id (fst row) = ?keys ! i) (merged_data data labels) = row # rest"
        by (rule g)
      show "fst ` set (row # rest) = {e \<in> set (prepare_data data). person_id e = ?keys ! i}"
        using group_events [of "?keys ! i" data labels] by (simp only: g)
      show "tokenize_patient_data (map (\<lambda>r. concept_id (fst r)) (row # rest))
               (map (\<lambda>r. event_date (fst r)) (row # rest)) (vocab_pkl r)
            = Inr (py_suffix MAX_SEQ_LENGTH ids)" using t by (simp only: v)
      show "sequences_npy r ! i = py_suffix MAX_SEQ_LENGTH ids
              @ replicate (MAX_SEQ_LENGTH - length (py_suffix MAX_SEQ_LENGTH ids)) 0"
        using s by (simp only: py_suffix_length)
      show "lengths_npy r ! i = length (py_suffix MAX_SEQ_LENGTH ids)"
        using l by (simp only: py_suffix_length)
      show "outcomes_npy r ! i = mace_12m row" by (rule o)
    qed
  qed
  from run np l1 l2 l3 c1 c2 c3 c4 c5 c6 show ?thesis by blast
qed

text \<open>The two patients of the example tables.\<close>

theorem assembler_row_alignment_witness:
  "process_patient_data example_table example_starts example_mace =
     Inr \<lparr>sequences_npy = [[1, 3, 4, 2] @ replicate 1020 0,
                           [1, 3, 4, 5, 2, 3, 6, 2] @ replicate 1016 0],
          lengths_npy = [4, 8],
          outcomes_npy = [NaN, Val 1],
          vocab_pkl = [(''10'', 4), (''20'', 5), (''30'', 6),
                       (''[PAD]'', 0), (''[CLS]'', 1), (''[SEP]'', 2), (''[DAY]'', 3)],
          sample_id_to_index = [(Some 1, 0), (Some 2, 1)],
          printed_max_sequence_length = 8,
          n_patients = 2\<rparr>
   \<and> card (person_id ` set example_table) = 2"
proof -
  from assembler_row_alignment [OF example_labels, of example_table]
  obtain r where "process_patient_data example_table example_starts example_mace = Inr r"
    and "n_patients r = card (person_id ` set example_table)" by blast
  then have "card (person_id ` set example_table) = 2" by (auto simp: example_run)
  with example_run show ?thesis by simp
qed

section \<open>Padding and valid lengths\<close>

text \<open>
  Claim C8. For every patient group of an invocation in which the labeler has returned the
  label frame \<open>labels\<close> (the group of the \<open>i\<close>-th person id in ascending order), with \<open>toks\<close> the
  possibly truncated token sequence the tokenizer returns for the group: row \<open>i\<close> of the token matrix has length exactly the maximum sequence length, its
  first \<open>length toks\<close> entries are \<open>toks\<close>, every later entry is the padding id 0, and entry
  \<open>i\<close> of the valid-length array is \<open>length toks\<close>, the token count after truncation.
\<close>

theorem stored_row_padded:
  assumes lab: "calculate_mace_outcomes starts mace = Inr labels"
  shows "\<exists>r. process_patient_data data starts mace = Inr r
     \<and> length (sequences_npy r) = card (person_id ` set data)
     \<and> length (lengths_npy r) = card (person_id ` set data)
     \<and> (\<forall>i < card (person_id ` set data). \<exists>row rest toks.
           filter (\<lambda>row. person_id (fst row) = sorted_list_of_set (person_id ` set data) ! i)
             (merged_data data labels) = row # rest
         \<and> tokenize_patient_data (map (\<lambda>r. concept_id (fst r)) (row # rest))
               (map (\<lambda>r. event_date (fst r)) (row # rest)) (vocab_pkl r) = Inr toks
         \<and> length toks \<le> MAX_SEQ_LENGTH
         \<and> length (sequences_npy r ! i) = MAX_SEQ_LENGTH
         \<and> take (length toks) (sequences_npy r ! i) = toks
         \<and> drop (length toks) (sequences_npy r ! i) = replicate (MAX_SEQ_LENGTH - length toks) 0
         \<and> lengths_npy r ! i = length toks)"
proof -
  let ?P = "person_id ` set data"
  let ?keys = "sorted_list_of_set ?P"
  from process_patient_data_rows [OF lab, where data = data] obtain r where
    run: "process_patient_data data starts mace = Inr r"
    and v: "vocab_pkl r = create_vocabulary (prepare_data data)"
    and l1: "length (sequences_npy r) = card ?P"
    and l3: "length (lengths_npy r) = card ?P"
    and rowsP: "\<forall>i < card ?P. \<exists>row rest ids.
           filter (\<lambda>row. person_id (fst row) = ?keys ! i) (merged_data data labels) = row # rest
         \<and> token_ids (create_vocabulary (prepare_data data))
               (patient_tokens (map (\<lambda>r. concept_id (fst r)) (row # rest))
                  (map (\<lambda>r. event_date (fst r)) (row # rest))) = Inr ids
         \<and> tokenize_patient_data (map (\<lambda>r. concept_id (fst r)) (row # rest))
               (map (\<lambda>r. event_date (fst r)) (row # rest))
               (create_vocabulary (prepare_data data)) = Inr (py_suffix MAX_SEQ_LENGTH ids)
         \<and> sequences_npy r ! i
               = py_suffix MAX_SEQ_LENGTH ids
                   @ replicate (MAX_SEQ_LENGTH - min (length ids) MAX_SEQ_LENGTH) 0
         \<and> lengths_npy r ! i = min (length ids) MAX_SEQ_LENGTH
         \<and> outcomes_npy r ! i = mace_12m row"
    by blast
  have rows: "\<forall>i < card ?P. \<exists>row rest toks.
           filter (\<lambda>row. person_id (fst row) = ?keys ! i) (merged_data data labels) = row # rest
         \<and> tokenize_patient_data (map (\<lambda>r. concept_id (fst r)) (row # rest))
               (map (\<lambda>r. event_date (fst r)) (row # rest)) (vocab_pkl r) = Inr toks
         \<and> length toks \<le> MAX_SEQ_LENGTH
         \<and> length (sequences_npy r ! i) = MAX_SEQ_LENGTH
         \<and> take (length toks) (sequences_npy r ! i) = toks
         \<and> drop (length toks) (sequences_npy r ! i) = replicate (MAX_SEQ_LENGTH - length toks) 0
         \<and> lengths_npy r ! i = length toks"
  proof (intro allI impI)
    fix i assume iN: "i < card ?P"
    from rowsP iN obtain row rest ids where
      g: "filter (\<lambda>row. person_id (fst row) = ?keys ! i) (merged_data data labels) = row # rest"
      and t: "tokenize_patient_data (map (\<lambda>r. concept_id (fst r)) (row # rest))
               (map (\<lambda>r. event_date (fst r)) (row # rest))
               (create_vocabulary (prepare_data data)) = Inr (py_suffix MAX_SEQ_LENGTH ids)"
      and s: "sequences_npy r ! i
               = py_suffix MAX_SEQ_LENGTH ids
                   @ replicate (MAX_SEQ_LENGTH - min (length ids) MAX_SEQ_LENGTH) 0"
      and l: "lengths_npy r ! i = min (length ids) MAX_SEQ_LENGTH"
      by blast
    let ?toks = "py_suffix MAX_SEQ_LENGTH ids"
    have len: "length ?toks = min (length ids) MAX_SEQ_LENGTH" by (rule py_suffix_length)
    have s': "sequences_npy r ! i = ?toks @ replicate (MAX_SEQ_LENGTH - length ?toks) 0"
      using s by (simp only: len)
    show "\<exists>row rest toks.
           filter (\<lambda>row. person_id (fst row) = ?keys ! i) (merged_data data labels) = row # rest
         \<and> tokenize_patient_data (map (\<lambda>r. concept_id (fst r)) (row # rest))
               (map (\<lambda>r. event_date (fst r)) (row # rest)) (vocab_pkl r) = Inr toks
         \<and> length toks \<le> MAX_SEQ_LENGTH
         \<and> length (sequences_npy r ! i) = MAX_SEQ_LENGTH
         \<and> take (length toks) (sequences_npy r ! i) = toks
         \<and> drop (length toks) (sequences_npy r ! i) = replicate (MAX_SEQ_LENGTH - length toks) 0
         \<and> lengths_npy r ! i = length toks"
    proof (intro exI conjI)
      show "filter (\<lambda>row. person_id (fst row) = ?keys ! i) (merged_data data labels) = row # rest"
        by (rule g)
      show "tokenize_patient_data (map (\<lambda>r. concept_id (fst r)) (row # rest))
               (map (\<lambda>r. event_date (fst r)) (row # rest)) (vocab_pkl r) = Inr ?toks"
        using t by (simp only: v)
      show "length ?toks \<le> MAX_SEQ_LENGTH" by (simp add: len)
      show "length (sequences_npy r ! i) = MAX_SEQ_LENGTH" by (simp add: s' len)
      show "take (length ?toks) (sequences_npy r ! i) = ?toks" by (simp add: s')
      show "drop (length ?toks) (sequences_npy r ! i) = replicate (MAX_SEQ_LENGTH - length ?toks) 0"
        by (simp add: s')
      show "lengths_npy r ! i = length ?toks" using l by (simp only: len)
    qed
  qed
  from run l1 l3 rows show ?thesis by blast
qed

text \<open>The rows and valid lengths of the example tables.\<close>

theorem stored_row_padded_witness:
  "map_sum id sequences_npy (process_patient_data example_table example_starts example_mace)
     = Inr [[1, 3, 4, 2] @ replicate 1020 0, [1, 3, 4, 5, 2, 3, 6, 2] @ replicate 1016 0]
   \<and> map_sum id lengths_npy (process_patient_data example_table example_starts example_mace)
     = Inr [4, 8]
   \<and> card (person_id ` set example_table) = 2"
proof -
  from stored_row_padded [OF example_labels, of example_table]
  obtain r where "process_patient_data example_table example_starts example_mace = Inr r"
    and "length (lengths_npy r) = card (person_id ` set example_table)" by blast
  then have "card (person_id ` set example_table) = 2" by (auto simp: example_run)
  then show ?thesis by (simp add: example_run)
qed

section \<open>The printed maximum sequence length\<close>

text \<open>
  The loop takes the maximum of \<^verbatim>\<open>len(tokens)\<close>, but \<^verbatim>\<open>tokens\<close> is what
  \<^verbatim>\<open>tokenize_patient_data\<close> returns, already cut to its last \<^verbatim>\<open>MAX_SEQ_LENGTH\<close> ids. So
  the maximum sequence length printed by the summary is the maximum of the token counts after
  truncation (the entries of the valid-length array, each the minimum of the raw token count
  and the maximum sequence length; 0 for an empty table), and it never exceeds the maximum
  sequence length.
\<close>

lemma printed_max_truncated:
  assumes lab: "calculate_mace_outcomes starts mace = Inr labels"
  shows "\<exists>r. process_patient_data data starts mace = Inr r
     \<and> printed_max_sequence_length r = Max (insert 0 (set (lengths_npy r)))
     \<and> printed_max_sequence_length r \<le> MAX_SEQ_LENGTH
     \<and> length (lengths_npy r) = card (person_id ` set data)
     \<and> (\<forall>i < card (person_id ` set data). \<exists>row rest ids.
           filter (\<lambda>row. person_id (fst row) = sorted_list_of_set (person_id ` set data) ! i)
             (merged_data data labels) = row # rest
         \<and> token_ids (vocab_pkl r)
               (patient_tokens (map (\<lambda>r. concept_id (fst r)) (row # rest))
                  (map (\<lambda>r. event_date (fst r)) (row # rest))) = Inr ids
         \<and> lengths_npy r ! i = min (length ids) MAX_SEQ_LENGTH)"
proof -
  let ?P = "person_id ` set data"
  let ?keys = "sorted_list_of_set ?P"
  from process_patient_data_rows [OF lab, where data = data] obtain r where
    run: "process_patient_data data starts mace = Inr r"
    and v: "vocab_pkl r = create_vocabulary (prepare_data data)"
    and l3: "length (lengths_npy r) = card ?P"
    and mx: "printed_max_sequence_length r = Max (insert 0 (set (lengths_npy r)))"
    and rowsP: "\<forall>i < card ?P. \<exists>row rest ids.
           filter (\<lambda>row. person_id (fst row) = ?keys ! i) (merged_data data labels) = row # rest
         \<and> token_ids (create_vocabulary (prepare_data data))
               (patient_tokens (map (\<lambda>r. concept_id (fst r)) (row # rest))
                  (map (\<lambda>r. event_date (fst r)) (row # rest))) = Inr ids
         \<and> tokenize_patient_data (map (\<lambda>r. concept_id (fst r)) (row # rest))
               (map (\<lambda>r. event_date (fst r)) (row # rest))
               (create_vocabulary (prepare_data data)) = Inr (py_suffix MAX_SEQ_LENGTH ids)
         \<and> sequences_npy r ! i
               = py_suffix MAX_SEQ_LENGTH ids
                   @ replicate (MAX_SEQ_LENGTH - min (length ids) MAX_SEQ_LENGTH) 0
         \<and> lengths_npy r ! i = min (length ids) MAX_SEQ_LENGTH
         \<and> outcomes_npy r ! i = mace_12m row"
    by blast
  have rows: "\<forall>i < card ?P. \<exists>row rest ids.
           filter (\<lambda>row. person_id (fst row) = ?keys ! i) (merged_data data labels) = row # rest
         \<and> token_ids (vocab_pkl r)
               (patient_tokens (map (\<lambda>r. concept_id (fst r)) (row # rest))
                  (map (\<lambda>r. event_date (fst r)) (row # rest))) = Inr ids
         \<and> lengths_npy r ! i = min (length ids) MAX_SEQ_LENGTH"
    using rowsP unfolding v by blast
  have "\<forall>x \<in> set (lengths_npy r). x \<le> MAX_SEQ_LENGTH"
  proof
    fix x assume "x \<in> set (lengths_npy r)"
    then obtain i where i: "i < card ?P" and x: "x = lengths_npy r ! i"
      using l3 by (auto simp: in_set_conv_nth)
    from rows i obtain ids :: "nat list"
      where "lengths_npy r ! i = min (length ids) MAX_SEQ_LENGTH" by blast
    with x show "x \<le> MAX_SEQ_LENGTH" by simp
  qed
  then have le: "printed_max_sequence_length r \<le> MAX_SEQ_LENGTH"
    by (simp add: mx)
  from run mx le l3 rows show ?thesis by blast
qed

subsection \<open>A patient with many events on one day\<close>

lemma sort_key_replicate: "sort_key f (replicate n x) = replicate n x"
  by (rule sort_key_id_if_sorted) simp

lemma single_day_patient:
  fixes n :: nat
  defines "e \<equiv> \<lparr>person_id = 2, concept_id = 10, event_date = 0\<rparr>"
  shows "map_sum id printed_max_sequence_length
           (process_patient_data (replicate (Suc n) e) example_starts example_mace)
           = Inr (min (n + 4) MAX_SEQ_LENGTH)"
proof -
  define data where "data = replicate (Suc n) e"
  have sd: "set data = {e}" unfolding data_def by (rule set_replicate_Suc)
  have P: "person_id ` set data = {2}" unfolding sd by (simp add: e_def)
  have c: "card (person_id ` set data) = 1" unfolding P by simp
  have k: "sorted_list_of_set (person_id ` set data) ! 0 = 2" unfolding P by simp
  have "map (\<lambda>r. r\<lparr>concept_id := astype_int32 (concept_id r)\<rparr>) data = data"
    unfolding data_def map_replicate by (simp add: e_def astype_int32_def)
  then have prep: "prepare_data data = data"
    unfolding prepare_data_def by (simp only: data_def sort_key_replicate)
  have merged: "merged_data data [(2, 1)] = replicate (Suc n) (e, Some (2, 1))"
    unfolding merged_data_def prep
    unfolding data_def
    by (rule merge_left_replicate) (simp add: e_def)
  have grp: "filter (\<lambda>row. person_id (fst row) = 2) (merged_data data [(2, 1)])
      = replicate (Suc n) (e, Some (2, 1))"
    unfolding merged by (simp add: e_def)
  from process_patient_data_rows [OF example_labels, where data = data] obtain r where
    run: "process_patient_data data example_starts example_mace = Inr r"
    and l3: "length (lengths_npy r) = card (person_id ` set data)"
    and mx: "printed_max_sequence_length r = Max (insert 0 (set (lengths_npy r)))"
    and rowsP: "\<forall>i < card (person_id ` set data). \<exists>row rest ids.
           filter (\<lambda>row. person_id (fst row) = sorted_list_of_set (person_id ` set data) ! i)
             (merged_data data [(2, 1)]) = row # rest
         \<and> token_ids (create_vocabulary (prepare_data data))
               (patient_tokens (map (\<lambda>r. concept_id (fst r)) (row # rest))
                  (map (\<lambda>r. event_date (fst r)) (row # rest))) = Inr ids
         \<and> tokenize_patient_data (map (\<lambda>r. concept_id (fst r)) (row # rest))
               (map (\<lambda>r. event_date (fst r)) (row # rest))
               (create_vocabulary (prepare_data data)) = Inr (py_suffix MAX_SEQ_LENGTH ids)
         \<and> sequences_npy r ! i
               = py_suffix MAX_SEQ_LENGTH ids
                   @ replicate (MAX_SEQ_LENGTH - min (length ids) MAX_SEQ_LENGTH) 0
         \<and> lengths_npy r ! i = min (length ids) MAX_SEQ_LENGTH
         \<and> outcomes_npy r ! i = mace_12m row"
    by blast
  from rowsP c have "\<exists>row rest ids.
           filter (\<lambda>row. person_id (fst row) = sorted_list_of_set (person_id ` set data) ! 0)
             (merged_data data [(2, 1)]) = row # rest
         \<and> token_ids (create_vocabulary (prepare_data data))
               (patient_tokens (map (\<lambda>r. concept_id (fst r)) (row # rest))
                  (map (\<lambda>r. event_date (fst r)) (row # rest))) = Inr ids
         \<and> lengths_npy r ! 0 = min (length ids) MAX_SEQ_LENGTH"
    by (metis zero_less_one)
  then obtain row rest and ids :: "nat list" where
    g: "filter (\<lambda>row. person_id (fst row) = 2) (merged_data data [(2, 1)]) = row # rest"
    and t: "token_ids (create_vocabulary (prepare_data data))
               (patient_tokens (map (\<lambda>r. concept_id (fst r)) (row # rest))
                  (map (\<lambda>r. event_date (fst r)) (row # rest))) = Inr ids"
    and l: "lengths_npy r ! 0 = min (length ids) MAX_SEQ_LENGTH"
    unfolding k by blast
  from g grp have rr: "row # rest = replicate (Suc n) (e, Some (2, 1))" by (simp only:)
  have codes: "map (\<lambda>r. concept_id (fst r)) (row # rest) = replicate (Suc n) 10"
    and dates: "map (\<lambda>r. event_date (fst r)) (row # rest) = replicate (Suc n) 0"
    unfolding rr by (simp_all add: e_def)
  from t have "length ids = length (patient_tokens (replicate (Suc n) 10) (replicate (Suc n) 0))"
    unfolding codes dates token_ids_built by auto
  also have "\<dots> = n + 4" unfolding patient_tokens_same_date by simp
  finally have li: "length ids = n + 4" .
  from l3 c obtain x where lx: "lengths_npy r = [x]"
    by (cases "lengths_npy r") auto
  with l li have "x = min (n + 4) MAX_SEQ_LENGTH" by simp
  with mx lx have "printed_max_sequence_length r = min (n + 4) MAX_SEQ_LENGTH" by simp
  with run show ?thesis unfolding data_def by simp
qed

text \<open>
  Claim C9 does not hold of the code. For patient 2 of the example index-date and outcome
  tables with 1100 events on one day, the untruncated token sequence has 1103 tokens (start,
  day boundary, 1100 codes, separator), more than the maximum sequence length 1024; the
  maximum sequence length printed by the summary is 1024, not the raw count 1103, and it does
  not exceed the maximum sequence length.
\<close>

theorem printed_max_is_capped:
  "map_sum id printed_max_sequence_length
      (process_patient_data
         (replicate 1100 \<lparr>person_id = 2, concept_id = 10, event_date = 0\<rparr>)
         example_starts example_mace) = Inr 1024
   \<and> length (patient_tokens (replicate 1100 10) (replicate 1100 0)) = 1103
   \<and> MAX_SEQ_LENGTH = 1024"
proof -
  have "map_sum id printed_max_sequence_length
      (process_patient_data
         (replicate (Suc 1099) \<lparr>person_id = 2, concept_id = 10, event_date = 0\<rparr>)
         example_starts example_mace)
      = Inr (min (1099 + 4) MAX_SEQ_LENGTH)"
    by (rule single_day_patient)
  moreover have "length (patient_tokens (replicate (Suc 1099) 10) (replicate (Suc 1099) 0)) = 1103"
    by (simp only: patient_tokens_same_date) simp
  ultimately show ?thesis
    by (simp add: replicate_1100 [symmetric] MAX_SEQ_LENGTH_def)
qed

section \<open>Patients without a label row\<close>

text \<open>
  Claim C6 does not hold of the code. In the example tables person 1 has an event but no row in
  the index-date table; the mapping sends person 1 to index 0, and the value written at index
  0 of the outcome array is \<^verbatim>\<open>NaN\<close>, the missing value of the left join, not 0.
\<close>

theorem missing_label_is_nan:
  "map_sum id outcomes_npy (process_patient_data example_table example_starts example_mace)
     = Inr [NaN, Val 1]
   \<and> map_sum id sample_id_to_index
        (process_patient_data example_table example_starts example_mace)
     = Inr [(Some 1, 0), (Some 2, 1)]
   \<and> 1 \<in> person_id ` set example_table
   \<and> 1 \<notin> fst ` set (table_rows example_starts)"
  by (simp add: example_run) (simp add: example_table_def example_starts_def)

section \<open>The outcome labeler\<close>

lemma filter_key_distinct:
  "distinct (map fst xs) \<Longrightarrow>
   filter (\<lambda>r. fst r = k) xs = (case map_of xs k of None \<Rightarrow> [] | Some v \<Rightarrow> [(k, v)])"
proof (induction xs)
  case Nil
  then show ?case by simp
next
  case (Cons x xs)
  obtain a b where x: "x = (a, b)" by (cases x)
  from Cons.prems have d: "distinct (map fst xs)" and a: "a \<notin> fst ` set xs" by (auto simp: x)
  show ?case
  proof (cases "a = k")
    case True
    with a have "filter (\<lambda>r. fst r = k) xs = []" by (auto simp: filter_empty_conv)
    with True show ?thesis by (simp add: x)
  next
    case False
    with Cons.IH [OF d] show ?thesis by (simp add: x)
  qed
qed

lemma merge_left_distinct:
  assumes "distinct (map fst right)"
  shows "merge_left fst left fst right
     = map (\<lambda>l. (l, case map_of right (fst l) of None \<Rightarrow> None | Some v \<Rightarrow> Some (fst l, v))) left"
proof (induction left)
  case Nil
  then show ?case by (simp add: merge_left_Nil)
next
  case (Cons l left)
  then show ?case
    by (simp add: merge_left_Cons filter_key_distinct [OF assms] split: option.splits)
qed

lemma label_frame_distinct:
  assumes "distinct (map fst mace_data)"
  shows "label_frame (merge_left fst starts fst mace_data)
     = map (\<lambda>l. (fst l,
              if \<exists>m d. map_of mace_data (fst l) = Some (Some m) \<and> snd l = Some d
                    \<and> 7 \<le> td_days (m - d) \<and> td_days (m - d) \<le> 365
              then 1 else 0)) starts"
proof -
  have row: "\<And>l found. (if 7 \<le> days_to_mace (l, case found of None \<Rightarrow> None | Some v \<Rightarrow> Some (fst l, v))
              \<and> days_to_mace (l, case found of None \<Rightarrow> None | Some v \<Rightarrow> Some (fst l, v)) \<le> 365
            then 1 else (0::int))
        = (if \<exists>m d. found = Some (Some m) \<and> snd l = Some d
                    \<and> 7 \<le> td_days (m - d) \<and> td_days (m - d) \<le> 365
              then 1 else 0)"
    by (auto simp: days_to_mace_def first_mace_date_def index_date_def split: option.splits)
  show ?thesis
    unfolding label_frame_def Let_def merge_left_distinct [OF assms]
    by (simp add: zip_map_map zip_same_conv_map row)
qed

text \<open>
  Claim C2, as amended, for an outcome table with at most one row per person id. The labeler
  raises \<^verbatim>\<open>TypeError\<close> when the index-date table has rows, its date column has another dtype
  than \<^verbatim>\<open>object\<close> (no index date at all was read) and the outcome-date column has the dtype
  \<^verbatim>\<open>object\<close>. In every other case it returns, and it emits exactly one label per row of the
  index-date table, in row order and with that row's person id; the label is 0 or 1, and it
  is 1 exactly when the patient's outcome date and the index date are present and the whole
  days from the index date to the outcome date (\<^verbatim>\<open>Timedelta.days\<close>, rounded down) are between
  7 and 365 inclusive. So 7 days give 1, 6 days give 0, 365 days give 1, 366 days give 0, and
  a patient with no outcome row or a missing outcome date gets 0.
\<close>

theorem mace_label_window:
  assumes "distinct (map fst (table_rows mace_data))"
  shows "if table_rows starts \<noteq> [] \<and> date_dtype mace_data = Object \<and> date_dtype starts \<noteq> Object
     then calculate_mace_outcomes starts mace_data = Inl TypeError
     else \<exists>labels. calculate_mace_outcomes starts mace_data = Inr labels
       \<and> length labels = length (table_rows starts)
       \<and> (\<forall>i < length (table_rows starts).
           fst (labels ! i) = fst (table_rows starts ! i)
         \<and> (snd (labels ! i) = 1 \<or> snd (labels ! i) = 0)
         \<and> (snd (labels ! i) = 1 \<longleftrightarrow>
               (\<exists>m d. map_of (table_rows mace_data) (fst (table_rows starts ! i)) = Some (Some m)
                    \<and> snd (table_rows starts ! i) = Some d
                    \<and> 7 \<le> td_days (m - d) \<and> td_days (m - d) \<le> 365))
         \<and> (\<forall>m d. map_of (table_rows mace_data) (fst (table_rows starts ! i)) = Some (Some m)
                    \<and> snd (table_rows starts ! i) = Some d \<longrightarrow>
                (td_days (m - d) = 7 \<longrightarrow> snd (labels ! i) = 1)
              \<and> (td_days (m - d) = 6 \<longrightarrow> snd (labels ! i) = 0)
              \<and> (td_days (m - d) = 365 \<longrightarrow> snd (labels ! i) = 1)
              \<and> (td_days (m - d) = 366 \<longrightarrow> snd (labels ! i) = 0))
         \<and> (map_of (table_rows mace_data) (fst (table_rows starts ! i)) = None
               \<or> map_of (table_rows mace_data) (fst (table_rows starts ! i)) = Some None
              \<longrightarrow> snd (labels ! i) = 0))"
proof (cases "table_rows starts \<noteq> [] \<and> date_dtype mace_data = Object \<and> date_dtype starts \<noteq> Object")
  case True
  then have e: "calculate_mace_outcomes starts mace_data = Inl TypeError"
    by (simp add: calculate_mace_outcomes_cases)
  show ?thesis
    unfolding if_P [OF True] by (rule e)
next
  case False
  let ?S = "table_rows starts"
  let ?M = "table_rows mace_data"
  let ?L = "label_frame (merge_left fst ?S fst ?M)"
  have run: "calculate_mace_outcomes starts mace_data = Inr ?L"
    using False by (simp add: calculate_mace_outcomes_cases)
  note eq = label_frame_distinct [OF assms, of ?S]
  have props: "length ?L = length ?S
       \<and> (\<forall>i < length ?S.
           fst (?L ! i) = fst (?S ! i)
         \<and> (snd (?L ! i) = 1 \<or> snd (?L ! i) = 0)
         \<and> (snd (?L ! i) = 1 \<longleftrightarrow>
               (\<exists>m d. map_of ?M (fst (?S ! i)) = Some (Some m)
                    \<and> snd (?S ! i) = Some d
                    \<and> 7 \<le> td_days (m - d) \<and> td_days (m - d) \<le> 365))
         \<and> (\<forall>m d. map_of ?M (fst (?S ! i)) = Some (Some m)
                    \<and> snd (?S ! i) = Some d \<longrightarrow>
                (td_days (m - d) = 7 \<longrightarrow> snd (?L ! i) = 1)
              \<and> (td_days (m - d) = 6 \<longrightarrow> snd (?L ! i) = 0)
              \<and> (td_days (m - d) = 365 \<longrightarrow> snd (?L ! i) = 1)
              \<and> (td_days (m - d) = 366 \<longrightarrow> snd (?L ! i) = 0))
         \<and> (map_of ?M (fst (?S ! i)) = None
               \<or> map_of ?M (fst (?S ! i)) = Some None
              \<longrightarrow> snd (?L ! i) = 0))"
  proof (intro conjI allI impI)
    show "length ?L = length ?S"
      by (simp add: eq)
  next
    fix i assume "i < length ?S"
    then show "fst (?L ! i) = fst (?S ! i)"
      by (simp add: eq)
  next
    fix i assume "i < length ?S"
    then show "snd (?L ! i) = 1 \<or> snd (?L ! i) = 0"
      by (simp add: eq)
  next
    fix i assume "i < length ?S"
    then show "snd (?L ! i) = 1 \<longleftrightarrow>
               (\<exists>m d. map_of ?M (fst (?S ! i)) = Some (Some m)
                    \<and> snd (?S ! i) = Some d
                    \<and> 7 \<le> td_days (m - d) \<and> td_days (m - d) \<le> 365)"
      by (simp add: eq)
  next
    fix i m d assume "i < length ?S"
      and "map_of ?M (fst (?S ! i)) = Some (Some m) \<and> snd (?S ! i) = Some d"
      and "td_days (m - d) = 7"
    then show "snd (?L ! i) = 1"
      by (simp add: eq)
  next
    fix i m d assume "i < length ?S"
      and "map_of ?M (fst (?S ! i)) = Some (Some m) \<and> snd (?S ! i) = Some d"
      and "td_days (m - d) = 6"
    then show "snd (?L ! i) = 0"
      by (simp add: eq)
  next
    fix i m d assume "i < length ?S"
      and "map_of ?M (fst (?S ! i)) = Some (Some m) \<and> snd (?S ! i) = Some d"
      and "td_days (m - d) = 365"
    then show "snd (?L ! i) = 1"
      by (simp add: eq)
  next
    fix i m d assume "i < length ?S"
      and "map_of ?M (fst (?S ! i)) = Some (Some m) \<and> snd (?S ! i) = Some d"
      and "td_days (m - d) = 366"
    then show "snd (?L ! i) = 0"
      by (simp add: eq)
  next
    fix i assume "i < length ?S"
      and "map_of ?M (fst (?S ! i)) = None \<or> map_of ?M (fst (?S ! i)) = Some None"
    then show "snd (?L ! i) = 0"
      by (auto simp: eq)
  qed
  show ?thesis
    unfolding if_not_P [OF False]
    by (rule exI [of _ ?L]) (rule conjI [OF run props])
qed

text \<open>The boundary cases of the window, a missing outcome date, a patient without an outcome
  row, and a missing index date.\<close>

theorem mace_label_window_witness:
  "distinct (map fst (table_rows window_mace))
   \<and> calculate_mace_outcomes window_starts window_mace
       = Inr [(1, 1), (2, 0), (3, 1), (4, 0), (5, 0), (6, 0), (7, 0)]
   \<and> td_days (604800 - 0) = 7 \<and> td_days (518400 - 0) = 6
   \<and> td_days (31536000 - 0) = 365 \<and> td_days (31622400 - 0) = 366
   \<and> length (table_rows window_starts) = 7"
proof -
  have d: "distinct (map fst (table_rows window_mace))" by (simp add: window_mace_def)
  have c: "calculate_mace_outcomes window_starts window_mace
       = Inr [(1, 1), (2, 0), (3, 1), (4, 0), (5, 0), (6, 0), (7, 0)]"
    by (simp add: calculate_mace_outcomes_def loc_assign_datetime_def label_frame_def
        merge_left_def window_starts_def window_mace_def
        days_to_mace_def first_mace_date_def index_date_def td_days_def)
  have n: "\<not> (table_rows window_starts \<noteq> [] \<and> date_dtype window_mace = Object
              \<and> date_dtype window_starts \<noteq> Object)"
    by (simp add: window_starts_def)
  from mace_label_window [OF d, of window_starts, unfolded if_not_P [OF n]]
  obtain labels where "calculate_mace_outcomes window_starts window_mace = Inr labels"
    and "length labels = length (table_rows window_starts)" by blast
  with c have "length (table_rows window_starts) = 7" by simp
  with d c show ?thesis by (simp add: td_days_def)
qed

text \<open>
  Claim C2 as stated fails in three ways. One label for every row of the index-date table:
  when the outcome table has two rows for a person, the left join pairs the index-date row
  with both, and two labels are emitted for it (here 1 and 0). Between 7 and 365 days after
  the index date: an outcome 365 days and 12 hours after the index date is labeled 1, since
  the elapsed time is rounded down to whole days. A label for every row: for an index-date
  column in which no row has a date (dtype \<^verbatim>\<open>float64\<close>) and an outcome table with a date no
  label is emitted, the labeler raises \<^verbatim>\<open>TypeError\<close>.
\<close>

theorem mace_label_duplicate_outcome_counterexample:
  "calculate_mace_outcomes \<lparr>date_dtype = Object, table_rows = [(1, Some 0)]\<rparr>
       \<lparr>date_dtype = Object, table_rows = [(1, Some 604800), (1, Some 34560000)]\<rparr>
     = Inr [(1, 1), (1, 0)]
   \<and> calculate_mace_outcomes \<lparr>date_dtype = Object, table_rows = [(1, Some 0)]\<rparr>
       \<lparr>date_dtype = Object, table_rows = [(1, Some 31579200)]\<rparr>
     = Inr [(1, 1)]
   \<and> 31579200 = 365 * 86400 + 12 * (3600::int)
   \<and> calculate_mace_outcomes \<lparr>date_dtype = Float64, table_rows = [(1, None)]\<rparr>
       \<lparr>date_dtype = Object, table_rows = [(1, Some 604800)]\<rparr>
     = Inl TypeError"
  by (simp add: calculate_mace_outcomes_def loc_assign_datetime_def label_frame_def merge_left_def
      days_to_mace_def first_mace_date_def index_date_def td_days_def)

section \<open>The mortality label aligner\<close>

lemma align_loop_result:
  assumes "distinct (map snd m)" and "\<forall>idx \<in> set (map snd m). idx < length out0"
  shows "\<exists>out. align_loop dd m out0 = Inr out \<and> length out = length out0
     \<and> (\<forall>e \<in> set m. out ! snd e = (case fst e of None \<Rightarrow> 0 | Some p \<Rightarrow> dict_get dd p 0))
     \<and> (\<forall>j. j \<notin> set (map snd m) \<longrightarrow> out ! j = out0 ! j)"
  using assms
proof (induction m arbitrary: out0)
  case Nil
  then show ?case by simp
next
  case (Cons e m)
  obtain pid idx where e: "e = (pid, idx)" by (cases e)
  let ?v = "case pid of None \<Rightarrow> 0 | Some p \<Rightarrow> dict_get dd p 0"
  let ?out1 = "out0[idx := ?v]"
  from Cons.prems have d: "distinct (map snd m)" and ni: "idx \<notin> set (map snd m)"
    and b: "idx < length out0" and bs: "\<forall>j \<in> set (map snd m). j < length ?out1"
    by (auto simp: e)
  from Cons.IH [OF d bs] obtain out where
    r: "align_loop dd m ?out1 = Inr out" and l: "length out = length ?out1"
    and v: "\<forall>e \<in> set m. out ! snd e = (case fst e of None \<Rightarrow> 0 | Some p \<Rightarrow> dict_get dd p 0)"
    and u: "\<forall>j. j \<notin> set (map snd m) \<longrightarrow> out ! j = ?out1 ! j"
    by blast
  have "align_loop dd (e # m) out0 = Inr out" using b r by (simp add: e)
  moreover have "length out = length out0" using l by simp
  moreover have "\<forall>e' \<in> set (e # m).
      out ! snd e' = (case fst e' of None \<Rightarrow> 0 | Some p \<Rightarrow> dict_get dd p 0)"
  proof -
    have "out ! idx = ?v" using u ni b by simp
    with v show ?thesis by (simp add: e)
  qed
  moreover have "\<forall>j. j \<notin> set (map snd (e # m)) \<longrightarrow> out ! j = out0 ! j"
    using u by (simp add: e)
  ultimately show ?case by blast
qed

lemma death_dict_lookup:
  assumes "distinct (map death_person_id deaths)"
  shows "dict_get (py_dict (zip (map death_person_id deaths) (map death_12m deaths))) p 0
     = (if \<exists>row \<in> set deaths. death_person_id row = p \<and> death_12m row = 1 then 1 else 0)"
proof -
  let ?kv = "zip (map death_person_id deaths) (map death_12m deaths)"
  have kv: "?kv = map (\<lambda>row. (death_person_id row, death_12m row)) deaths"
    by (simp add: zip_map_map zip_same_conv_map)
  have d: "distinct (map fst ?kv)" using assms by simp
  have b: "\<And>row. death_12m row = 1 \<or> death_12m row = 0"
    by (simp add: death_12m_def split: option.splits)
  show ?thesis
  proof (cases "map_of ?kv p")
    case None
    then have "p \<notin> death_person_id ` set deaths"
      by (simp add: map_of_eq_None_iff kv image_image)
    then have "\<not> (\<exists>row \<in> set deaths. death_person_id row = p \<and> death_12m row = 1)"
      by auto
    moreover have "dict_get (py_dict ?kv) p 0 = 0"
      by (simp add: dict_get_def py_dict_distinct [OF d] None)
    ultimately show ?thesis by simp
  next
    case (Some v)
    then have "(p, v) \<in> set ?kv" by (rule map_of_SomeD)
    then obtain row where row: "row \<in> set deaths" "death_person_id row = p" "death_12m row = v"
      by (auto simp: kv)
    from assms have inj: "inj_on death_person_id (set deaths)" by (simp add: distinct_map)
    have uniq: "\<And>row'. row' \<in> set deaths \<Longrightarrow> death_person_id row' = p \<Longrightarrow> row' = row"
      using inj row by (auto dest: inj_onD)
    show ?thesis
    proof (cases "v = 1")
      case True
      with Some row show ?thesis by (auto simp: dict_get_def py_dict_distinct [OF d])
    next
      case False
      with b [of row] row have "v = 0" by simp
      moreover have "\<not> (\<exists>row \<in> set deaths. death_person_id row = p \<and> death_12m row = 1)"
        using uniq row False by blast
      ultimately show ?thesis using Some by (simp add: dict_get_def py_dict_distinct [OF d])
    qed
  qed
qed

lemma death_12m_iff:
  "death_12m row = 1 \<longleftrightarrow> (\<exists>x. days_to_death row = Some x \<and> 0 \<le> x \<and> x \<le> 365)"
  by (simp add: death_12m_def split: option.splits)

lemma days_window_seconds:
  "(0 \<le> real_of_int z / (24 * 3600) \<and> real_of_int z / (24 * 3600) \<le> 365)
     \<longleftrightarrow> (0 \<le> z \<and> z \<le> 31536000)"
proof -
  have "(real_of_int z / (24 * 3600) \<le> 365) = (real_of_int z \<le> 31536000)"
    by (simp add: field_simps)
  moreover have "(0 \<le> real_of_int z / (24 * 3600)) = (0 \<le> real_of_int z)"
    by (simp add: field_simps)
  ultimately show ?thesis by simp
qed

lemma days_to_death_seconds:
  "(\<exists>x. days_to_death row = Some x \<and> 0 \<le> x \<and> x \<le> 365) \<longleftrightarrow>
   (\<exists>d f. death_date row = Some d \<and> first_exposure_date row = Some f
        \<and> 0 \<le> d - f \<and> d - f \<le> 31536000)"
proof (cases "death_date row")
  case None
  then show ?thesis by (simp add: days_to_death_def)
next
  case d: (Some d)
  show ?thesis
  proof (cases "first_exposure_date row")
    case None
    with d show ?thesis by (simp add: days_to_death_def)
  next
    case (Some f)
    define x where "x = real_of_int (d - f) / (24 * 3600)"
    have "days_to_death row = Some x"
      by (simp add: days_to_death_def d Some x_def)
    then have l: "(\<exists>y. days_to_death row = Some y \<and> 0 \<le> y \<and> y \<le> 365) = (0 \<le> x \<and> x \<le> 365)"
      by auto
    have r: "(\<exists>d' f'. death_date row = Some d' \<and> first_exposure_date row = Some f'
        \<and> 0 \<le> d' - f' \<and> d' - f' \<le> 31536000) = (0 \<le> d - f \<and> d - f \<le> 31536000)"
      by (auto simp: d Some)
    show ?thesis unfolding l r x_def by (rule days_window_seconds)
  qed
qed

lemma index_set_full:
  assumes "distinct (map snd m)" and "\<forall>idx \<in> set (map snd m). idx < length m"
  shows "set (map snd m) = {0 ..< length m}"
proof (rule card_subset_eq)
  show "finite {0 ..< length m}" by simp
  show "set (map snd m) \<subseteq> {0 ..< length m}" using assms(2) by auto
  have "card (set (map snd m)) = length (map snd m)" using assms(1) by (rule distinct_card)
  then show "card (set (map snd m)) = card {0 ..< length m}" by simp
qed

text \<open>
  Claim C7, as amended: for a mapping whose row indices are distinct and below its size (as
  the assembler produces it) and a death table with at most one row per person id, the
  aligner returns an array as long as the mapping; the entry at the index of a mapped person
  is 0 or 1, and it is 1 exactly when the person has a row in the death table whose
  \<^verbatim>\<open>days_to_death\<close> is present (both dates present) and lies in \<open>[0, 365]\<close>. Rows of the death
  table for persons outside the mapping change nothing: without them the result is the same.
\<close>

theorem death_outcomes_aligned:
  assumes "distinct (map death_person_id deaths)"
    and "distinct (map snd id_mapping)"
    and "\<forall>idx \<in> set (map snd id_mapping). idx < length id_mapping"
  shows "\<exists>out. death_outcomes deaths id_mapping = Inr out
     \<and> length out = length id_mapping
     \<and> (\<forall>e \<in> set id_mapping.
           (out ! snd e = 1 \<or> out ! snd e = 0)
         \<and> (out ! snd e = 1 \<longleftrightarrow>
               (\<exists>row \<in> set deaths. \<exists>x. fst e = Some (death_person_id row)
                   \<and> days_to_death row = Some x \<and> 0 \<le> x \<and> x \<le> 365)))
     \<and> death_outcomes
          (filter (\<lambda>row. Some (death_person_id row) \<in> fst ` set id_mapping) deaths) id_mapping
         = Inr out"
proof -
  let ?N = "length id_mapping"
  let ?keep = "\<lambda>row. Some (death_person_id row) \<in> fst ` set id_mapping"
  let ?dd = "\<lambda>ds. py_dict (zip (map death_person_id ds) (map death_12m ds))"
  let ?val = "\<lambda>ds pid. case pid of None \<Rightarrow> 0 | Some p \<Rightarrow> dict_get (?dd ds) p 0"
  have b: "\<forall>idx \<in> set (map snd id_mapping). idx < length (replicate ?N (0::int))"
    using assms(3) by simp
  have d': "distinct (map death_person_id (filter ?keep deaths))"
    using assms(1) by (rule distinct_map_filter)
  have val: "\<And>ds pid. distinct (map death_person_id ds) \<Longrightarrow>
      ?val ds pid = (if \<exists>row \<in> set ds. pid = Some (death_person_id row) \<and> death_12m row = 1
                     then 1 else 0)"
  proof -
    fix ds :: "death list" and pid :: "int option"
    assume d: "distinct (map death_person_id ds)"
    show "?val ds pid = (if \<exists>row \<in> set ds. pid = Some (death_person_id row) \<and> death_12m row = 1
                     then 1 else 0)"
    proof (cases pid)
      case None
      then show ?thesis by simp
    next
      case (Some p)
      have "(\<exists>row \<in> set ds. Some p = Some (death_person_id row) \<and> death_12m row = 1)
          = (\<exists>row \<in> set ds. death_person_id row = p \<and> death_12m row = 1)" by auto
      then show ?thesis by (simp add: Some death_dict_lookup [OF d])
    qed
  qed
  from align_loop_result [OF assms(2) b, of "?dd deaths"] obtain out where
    run: "align_loop (?dd deaths) id_mapping (replicate ?N 0) = Inr out"
    and len: "length out = ?N"
    and v: "\<forall>e \<in> set id_mapping. out ! snd e = ?val deaths (fst e)"
    by auto
  from align_loop_result [OF assms(2) b, of "?dd (filter ?keep deaths)"] obtain out' where
    run': "align_loop (?dd (filter ?keep deaths)) id_mapping (replicate ?N 0) = Inr out'"
    and len': "length out' = ?N"
    and v': "\<forall>e \<in> set id_mapping. out' ! snd e = ?val (filter ?keep deaths) (fst e)"
    by auto
  have same: "out' = out"
  proof (rule nth_equalityI)
    show "length out' = length out" by (simp add: len len')
    fix j assume "j < length out'"
    then have "j \<in> {0 ..< length id_mapping}" by (simp add: len')
    then have "j \<in> set (map snd id_mapping)"
      by (simp only: index_set_full [OF assms(2) assms(3)])
    then obtain e where e: "e \<in> set id_mapping" "snd e = j" by auto
    have "(\<exists>row \<in> set (filter ?keep deaths). fst e = Some (death_person_id row) \<and> death_12m row = 1)
        = (\<exists>row \<in> set deaths. fst e = Some (death_person_id row) \<and> death_12m row = 1)"
      using e(1) by force
    then have "?val (filter ?keep deaths) (fst e) = ?val deaths (fst e)"
      by (simp only: val [OF d'] val [OF assms(1)])
    with v v' e show "out' ! j = out ! j" by auto
  qed
  have props: "\<forall>e \<in> set id_mapping.
           (out ! snd e = 1 \<or> out ! snd e = 0)
         \<and> (out ! snd e = 1 \<longleftrightarrow>
               (\<exists>row \<in> set deaths. \<exists>x. fst e = Some (death_person_id row)
                   \<and> days_to_death row = Some x \<and> 0 \<le> x \<and> x \<le> 365))"
  proof
    fix e assume e: "e \<in> set id_mapping"
    have o: "out ! snd e = (if \<exists>row \<in> set deaths. fst e = Some (death_person_id row) \<and> death_12m row = 1
                     then 1 else 0)"
      using v e by (simp only: val [OF assms(1)])
    have "(\<exists>row \<in> set deaths. fst e = Some (death_person_id row) \<and> death_12m row = 1)
        = (\<exists>row \<in> set deaths. \<exists>x. fst e = Some (death_person_id row)
                   \<and> days_to_death row = Some x \<and> 0 \<le> x \<and> x \<le> 365)"
      by (auto simp: death_12m_iff)
    with o show "(out ! snd e = 1 \<or> out ! snd e = 0)
         \<and> (out ! snd e = 1 \<longleftrightarrow>
               (\<exists>row \<in> set deaths. \<exists>x. fst e = Some (death_person_id row)
                   \<and> days_to_death row = Some x \<and> 0 \<le> x \<and> x \<le> 365))"
      by simp
  qed
  have r1: "death_outcomes deaths id_mapping = Inr out"
    using run by (simp add: death_outcomes_def)
  have r2: "death_outcomes (filter ?keep deaths) id_mapping = Inr out"
    using run' same by (simp add: death_outcomes_def)
  from r1 len props r2 show ?thesis by blast
qed

text \<open>The mapping of the example tables with the example death table.\<close>

theorem death_outcomes_aligned_witness:
  "distinct (map death_person_id example_deaths)
   \<and> distinct (map snd [(Some (1::int), 0::nat), (Some 2, 1)])
   \<and> death_outcomes example_deaths [(Some 1, 0), (Some 2, 1)] = Inr [0, 1]
   \<and> map days_to_death example_deaths = [Some 365, Some 1, None]"
proof -
  have d: "distinct (map death_person_id example_deaths)" by (simp add: example_deaths_def)
  have m: "distinct (map snd [(Some (1::int), 0::nat), (Some 2, 1)])" by simp
  have b: "\<forall>idx \<in> set (map snd [(Some (1::int), 0::nat), (Some 2, 1)]).
      idx < length [(Some (1::int), 0::nat), (Some 2, 1)]" by simp
  have days: "map days_to_death example_deaths = [Some 365, Some 1, None]"
    by (simp add: example_deaths_def days_to_death_def)
  from death_outcomes_aligned [OF d m b]
  obtain out where o: "death_outcomes example_deaths [(Some 1, 0), (Some 2, 1)] = Inr out"
    and l: "length out = length [(Some (1::int), 0::nat), (Some 2, 1)]"
    and p: "\<forall>e \<in> set [(Some (1::int), 0::nat), (Some 2, 1)].
           (out ! snd e = 1 \<or> out ! snd e = 0)
         \<and> (out ! snd e = 1 \<longleftrightarrow>
               (\<exists>row \<in> set example_deaths. \<exists>x. fst e = Some (death_person_id row)
                   \<and> days_to_death row = Some x \<and> 0 \<le> x \<and> x \<le> 365))"
    by blast
  from p have "(out ! 0 = 1 \<or> out ! 0 = 0) \<and> out ! 0 \<noteq> 1 \<and> out ! 1 = 1"
    by (auto simp: example_deaths_def days_to_death_def)
  then have "out ! 0 = 0" and "out ! 1 = 1" by auto
  with l have "out = [0, 1]"
    by (cases out; cases "tl out"; cases "tl (tl out)") auto
  with o d m days show ?thesis by simp
qed

text \<open>
  Claim C7 as stated fails when the death table has two rows for a person: \<^verbatim>\<open>death_dict\<close>
  keeps the label of the last one. Here the first row has a death one day after exposure, the
  last one a missing death date, and the entry is 0.
\<close>

theorem death_outcomes_duplicate_rows_counterexample:
  "death_outcomes
     [\<lparr>death_person_id = 1, first_exposure_date = Some 0, death_date = Some 86400\<rparr>,
      \<lparr>death_person_id = 1, first_exposure_date = Some 0, death_date = None\<rparr>]
     [(Some 1, 0)] = Inr [0]
   \<and> days_to_death \<lparr>death_person_id = 1, first_exposure_date = Some 0, death_date = Some 86400\<rparr>
       = Some 1"
  by (simp add: death_outcomes_def py_dict_def dict_merge_def dict_get_def death_12m_def
      days_to_death_def)

section \<open>Several label rows for a patient\<close>

lemma tokenize_loop_same_date_append:
  "tokenize_loop (replicate n (d, c) @ rest) (Some d) toks
     = tokenize_loop rest (Some d) (toks @ replicate n (str_int c))"
proof (induction n arbitrary: toks)
  case 0
  then show ?case by simp
next
  case (Suc n)
  have "tokenize_loop (replicate (Suc n) (d, c) @ rest) (Some d) toks
      = tokenize_loop (replicate n (d, c) @ rest) (Some d) (toks @ [str_int c])" by simp
  also have "\<dots> = tokenize_loop rest (Some d) ((toks @ [str_int c]) @ replicate n (str_int c))"
    by (rule Suc.IH)
  also have "(toks @ [str_int c]) @ replicate n (str_int c) = toks @ replicate (Suc n) (str_int c)"
    by simp
  finally show ?case .
qed

lemma tokenize_loop_replicated:
  fixes k :: nat
  defines "X \<equiv> \<lambda>ts. concat (map (\<lambda>t. if t = ''[CLS]'' \<or> t = ''[SEP]'' \<or> t = ''[DAY]''
                                        then [t] else replicate (Suc k) t) ts)"
  shows "tokenize_loop (concat (map (replicate (Suc k)) ps)) cur (X toks)
           = X (tokenize_loop ps cur toks)"
proof (induction ps arbitrary: cur toks)
  case Nil
  then show ?case by simp
next
  case (Cons p ps)
  obtain d c where p: "p = (d, c)" by (cases p)
  let ?rest = "concat (map (replicate (Suc k)) ps)"
  have Xapp: "\<And>a b. X (a @ b) = X a @ X b" by (simp add: X_def)
  have Xnil: "X [] = []" by (simp add: X_def)
  have Xcons: "\<And>t ts. X (t # ts) = (if t = ''[CLS]'' \<or> t = ''[SEP]'' \<or> t = ''[DAY]''
                                        then [t] else t # replicate k t) @ X ts"
    by (simp add: X_def)
  have split: "concat (map (replicate (Suc k)) (p # ps)) = (d, c) # (replicate k (d, c) @ ?rest)"
    by (simp add: p)
  show ?case
  proof (cases "Some d \<noteq> cur")
    case True
    let ?t = "(if cur \<noteq> None then toks @ [''[SEP]''] else toks) @ [''[DAY]''] @ [str_int c]"
    have "tokenize_loop (concat (map (replicate (Suc k)) (p # ps))) cur (X toks)
        = tokenize_loop (replicate k (d, c) @ ?rest) (Some d)
            ((if cur \<noteq> None then X toks @ [''[SEP]''] else X toks) @ [''[DAY]''] @ [str_int c])"
      unfolding split using True by simp
    also have "\<dots> = tokenize_loop ?rest (Some d)
            (((if cur \<noteq> None then X toks @ [''[SEP]''] else X toks) @ [''[DAY]''] @ [str_int c])
               @ replicate k (str_int c))"
      by (rule tokenize_loop_same_date_append)
    also have "((if cur \<noteq> None then X toks @ [''[SEP]''] else X toks) @ [''[DAY]''] @ [str_int c])
               @ replicate k (str_int c) = X ?t"
      by (simp add: Xapp Xcons Xnil str_int_reserved)
    also have "tokenize_loop ?rest (Some d) (X ?t) = X (tokenize_loop ps (Some d) ?t)"
      by (rule Cons.IH)
    also have "tokenize_loop ps (Some d) ?t = tokenize_loop (p # ps) cur toks"
      using True by (simp add: p)
    finally show ?thesis .
  next
    case False
    then have cur: "cur = Some d" by simp
    have "tokenize_loop (concat (map (replicate (Suc k)) (p # ps))) cur (X toks)
        = tokenize_loop (replicate k (d, c) @ ?rest) (Some d) (X toks @ [str_int c])"
      unfolding split by (simp add: cur)
    also have "\<dots> = tokenize_loop ?rest (Some d) ((X toks @ [str_int c]) @ replicate k (str_int c))"
      by (rule tokenize_loop_same_date_append)
    also have "(X toks @ [str_int c]) @ replicate k (str_int c) = X (toks @ [str_int c])"
      by (simp add: Xapp Xcons Xnil str_int_reserved)
    also have "tokenize_loop ?rest (Some d) (X (toks @ [str_int c]))
        = X (tokenize_loop ps (Some d) (toks @ [str_int c]))"
      by (rule Cons.IH)
    also have "tokenize_loop ps (Some d) (toks @ [str_int c]) = tokenize_loop (p # ps) cur toks"
      by (simp add: p cur)
    finally show ?thesis .
  qed
qed

lemma zip_concat_replicate:
  "length xs = length ys \<Longrightarrow>
   zip (concat (map (replicate k) xs)) (concat (map (replicate k) ys))
     = concat (map (replicate k) (zip xs ys))"
  by (induction xs ys rule: list_induct2) (simp_all add: zip_replicate)

lemma patient_tokens_replicated:
  assumes "length events = length dates"
  shows "patient_tokens (concat (map (replicate (Suc k)) events))
           (concat (map (replicate (Suc k)) dates))
     = concat (map (\<lambda>t. if t = ''[CLS]'' \<or> t = ''[SEP]'' \<or> t = ''[DAY]''
                           then [t] else replicate (Suc k) t) (patient_tokens events dates))"
proof -
  let ?X = "\<lambda>ts. concat (map (\<lambda>t. if t = ''[CLS]'' \<or> t = ''[SEP]'' \<or> t = ''[DAY]''
                                        then [t] else replicate (Suc k) t) ts)"
  have z: "zip (concat (map (replicate (Suc k)) dates)) (concat (map (replicate (Suc k)) events))
      = concat (map (replicate (Suc k)) (zip dates events))"
    using assms by (simp only: zip_concat_replicate)
  have c: "?X [''[CLS]''] = [''[CLS]'']" by simp
  have "tokenize_loop (concat (map (replicate (Suc k)) (zip dates events))) None (?X [''[CLS]''])
      = ?X (tokenize_loop (zip dates events) None [''[CLS]''])"
    by (rule tokenize_loop_replicated)
  then have "tokenize_loop (concat (map (replicate (Suc k)) (zip dates events))) None [''[CLS]'']
      = ?X (tokenize_loop (zip dates events) None [''[CLS]''])"
    by (simp only: c)
  then show ?thesis
    unfolding patient_tokens_def z by simp
qed

lemma token_ids_replicated:
  assumes "length events = length dates"
  shows "map (\<lambda>t. dict_get (create_vocabulary df) t 0)
           (patient_tokens (concat (map (replicate (Suc k)) events))
              (concat (map (replicate (Suc k)) dates)))
     = concat (map (\<lambda>i. if i = 1 \<or> i = 2 \<or> i = 3 then [i] else replicate (Suc k) i)
         (map (\<lambda>t. dict_get (create_vocabulary df) t 0) (patient_tokens events dates)))"
proof -
  let ?f = "\<lambda>t. dict_get (create_vocabulary df) t 0"
  let ?toks = "patient_tokens events dates"
  have "map ?f (concat (map (\<lambda>t. if t = ''[CLS]'' \<or> t = ''[SEP]'' \<or> t = ''[DAY]''
                           then [t] else replicate (Suc k) t) ?toks))
      = concat (map (\<lambda>t. map ?f (if t = ''[CLS]'' \<or> t = ''[SEP]'' \<or> t = ''[DAY]''
                           then [t] else replicate (Suc k) t)) ?toks)"
    by (simp add: map_concat comp_def)
  also have "\<dots> = concat (map (\<lambda>t. if ?f t = 1 \<or> ?f t = 2 \<or> ?f t = 3 then [?f t]
                                       else replicate (Suc k) (?f t)) ?toks)"
  proof -
    have "map (\<lambda>t. map ?f (if t = ''[CLS]'' \<or> t = ''[SEP]'' \<or> t = ''[DAY]''
                           then [t] else replicate (Suc k) t)) ?toks
        = map (\<lambda>t. if ?f t = 1 \<or> ?f t = 2 \<or> ?f t = 3 then [?f t]
                                       else replicate (Suc k) (?f t)) ?toks"
    proof (rule map_cong)
      fix t assume "t \<in> set ?toks"
      from vocab_id_iff [OF this, of df]
      show "map ?f (if t = ''[CLS]'' \<or> t = ''[SEP]'' \<or> t = ''[DAY]''
                           then [t] else replicate (Suc k) t)
          = (if ?f t = 1 \<or> ?f t = 2 \<or> ?f t = 3 then [?f t] else replicate (Suc k) (?f t))"
        by (simp del: replicate_Suc)
    qed simp
    then show ?thesis by (rule arg_cong)
  qed
  also have "\<dots> = concat (map (\<lambda>i. if i = 1 \<or> i = 2 \<or> i = 3 then [i] else replicate (Suc k) i)
         (map ?f ?toks))"
    by (simp add: comp_def)
  finally show ?thesis using assms by (simp only: patient_tokens_replicated)
qed

lemma count_list_concat_expand:
  assumes "y = 1 \<or> y = 2 \<or> y = (3::nat)"
  shows "count_list (concat (map (\<lambda>i. if i = 1 \<or> i = 2 \<or> i = 3 then [i] else replicate k i) xs)) y
     = count_list xs y"
proof (induction xs)
  case Nil
  then show ?case by simp
next
  case (Cons x xs)
  have r: "x \<noteq> y \<Longrightarrow> count_list (replicate k x) y = 0"
    by (induction k) simp_all
  show ?case using Cons.IH assms by (auto simp: r)
qed

lemma merge_left_same_key:
  assumes "\<forall>e \<in> set E. lkey e = p" and "filter (\<lambda>r. rkey r = p) R = l # ls"
  shows "merge_left lkey E rkey R = concat (map (\<lambda>e. map (\<lambda>r. (e, Some r)) (l # ls)) E)"
  using assms(1)
proof (induction E)
  case Nil
  then show ?case by (simp add: merge_left_Nil)
next
  case (Cons e E)
  then have "lkey e = p" by simp
  then have "filter (\<lambda>r. rkey r = lkey e) R = l # ls" using assms(2) by simp
  with Cons show ?case by (simp add: merge_left_Cons)
qed

lemma merge_left_length_le1:
  assumes "\<forall>l \<in> set L. length (filter (\<lambda>r. rkey r = lkey l) R) \<le> 1"
  shows "length (merge_left lkey L rkey R) = length L"
  using assms
proof (induction L)
  case Nil
  then show ?case by (simp add: merge_left_Nil)
next
  case (Cons l L)
  from Cons.prems have "length (filter (\<lambda>r. rkey r = lkey l) R) \<le> 1" by simp
  then have "length (case filter (\<lambda>r. rkey r = lkey l) R of
        [] \<Rightarrow> [(l, None)]
      | ms \<Rightarrow> map (\<lambda>r. (l, Some r)) ms) = 1"
    by (cases "filter (\<lambda>r. rkey r = lkey l) R") auto
  with Cons show ?case by (simp add: merge_left_Cons)
qed

lemma label_frame_rows:
  "label_frame outcomes
     = map (\<lambda>row. (fst (fst row),
              if 7 \<le> days_to_mace row \<and> days_to_mace row \<le> 365 then 1 else 0)) outcomes"
  by (simp add: label_frame_def Let_def zip_map_map zip_same_conv_map)

lemma label_rows_count:
  assumes "length (filter (\<lambda>m. fst m = p) mace) \<le> 1"
  shows "length (filter (\<lambda>l. fst l = p) (label_frame (merge_left fst starts fst mace)))
     = length (filter (\<lambda>s. fst s = p) starts)"
proof -
  have "filter (\<lambda>l. fst l = p) (label_frame (merge_left fst starts fst mace))
      = map (\<lambda>row. (fst (fst row),
              if 7 \<le> days_to_mace row \<and> days_to_mace row \<le> 365 then 1 else 0))
          (filter (\<lambda>row. fst (fst row) = p) (merge_left fst starts fst mace))"
    by (simp add: label_frame_rows filter_map comp_def)
  also have "filter (\<lambda>row. fst (fst row) = p) (merge_left fst starts fst mace)
      = merge_left fst (filter (\<lambda>s. fst s = p) starts) fst mace"
    by (rule merge_left_filter)
  finally have "length (filter (\<lambda>l. fst l = p) (label_frame (merge_left fst starts fst mace)))
      = length (merge_left fst (filter (\<lambda>s. fst s = p) starts) fst mace)" by simp
  also have "\<dots> = length (filter (\<lambda>s. fst s = p) starts)"
    by (rule merge_left_length_le1) (use assms in auto)
  finally show ?thesis .
qed

lemma map_fst_expanded:
  "map (\<lambda>row. f (fst row)) (concat (map (\<lambda>e. map (\<lambda>r. (e, Some r)) L) E))
     = concat (map (replicate (length L)) (map f E))"
  by (induction E) (simp_all add: comp_def map_replicate_const)

lemma patient_group_expanded:
  assumes "filter (\<lambda>l. fst l = p) labels = l # ls"
  shows "filter (\<lambda>row. person_id (fst row) = p) (merged_data data labels)
     = concat (map (\<lambda>e. map (\<lambda>r. (e, Some r)) (l # ls))
         (filter (\<lambda>e. person_id e = p) (prepare_data data)))"
proof -
  have "filter (\<lambda>row. person_id (fst row) = p) (merged_data data labels)
      = merge_left person_id (filter (\<lambda>e. person_id e = p) (prepare_data data)) fst labels"
    unfolding merged_data_def by (rule merge_left_filter)
  also have "\<dots> = concat (map (\<lambda>e. map (\<lambda>r. (e, Some r)) (l # ls))
         (filter (\<lambda>e. person_id e = p) (prepare_data data)))"
    by (rule merge_left_same_key) (use assms in simp_all)
  finally show ?thesis .
qed

text \<open>
  Claim C10, as amended: in an invocation in which the labeler returns the label frame
  \<open>labels\<close>, for every patient \<open>p\<close> of the event table for whom the labeler emits
  \<open>k \<ge> 1\<close> label rows \<open>l # ls\<close> (\<open>k\<close> is the number of the patient's rows in the index-date table
  when the outcome table has at most one row for the patient), the left join replicates each
  of the patient's event rows \<open>k\<close> consecutive times. The untruncated token ids of the group
  are those of the patient's events with every code id repeated \<open>k\<close> consecutive times and the
  structural ids kept once, so the counts of day-boundary and separator ids are unchanged.
  The stored outcome label is the label of \<open>l\<close>, the first label row, which is the label of
  the first row of the group.
\<close>

theorem duplicate_labels_replicate_events:
  assumes pin: "p \<in> person_id ` set data"
    and lab: "calculate_mace_outcomes starts mace = Inr labels"
    and rows: "filter (\<lambda>l. fst l = p) labels = l # ls"
  shows "\<exists>r i ids ids'.
       process_patient_data data starts mace = Inr r
     \<and> map_of (sample_id_to_index r) (Some p) = Some i
     \<and> map fst (filter (\<lambda>row. person_id (fst row) = p) (merged_data data labels))
         = concat (map (replicate (length (l # ls)))
             (filter (\<lambda>e. person_id e = p) (prepare_data data)))
     \<and> token_ids (vocab_pkl r)
          (patient_tokens
             (map concept_id (filter (\<lambda>e. person_id e = p) (prepare_data data)))
             (map event_date (filter (\<lambda>e. person_id e = p) (prepare_data data)))) = Inr ids
     \<and> token_ids (vocab_pkl r)
          (patient_tokens
             (map (\<lambda>row. concept_id (fst row))
                (filter (\<lambda>row. person_id (fst row) = p) (merged_data data labels)))
             (map (\<lambda>row. event_date (fst row))
                (filter (\<lambda>row. person_id (fst row) = p) (merged_data data labels))))
         = Inr ids'
     \<and> ids' = concat (map (\<lambda>t. if t = 1 \<or> t = 2 \<or> t = 3 then [t]
                                 else replicate (length (l # ls)) t) ids)
     \<and> count_list ids' 3 = count_list ids 3
     \<and> count_list ids' 2 = count_list ids 2
     \<and> outcomes_npy r ! i = Val (snd l)
     \<and> (length (filter (\<lambda>m. fst m = p) (table_rows mace)) \<le> 1
          \<longrightarrow> length (l # ls) = length (filter (\<lambda>s. fst s = p) (table_rows starts)))"
proof -
  let ?P = "person_id ` set data"
  let ?keys = "sorted_list_of_set ?P"
  let ?V = "create_vocabulary (prepare_data data)"
  let ?E = "filter (\<lambda>e. person_id e = p) (prepare_data data)"
  let ?G = "filter (\<lambda>row. person_id (fst row) = p) (merged_data data labels)"
  let ?f = "\<lambda>t. dict_get ?V t 0"
  let ?k = "length ls"
  let ?ids = "map ?f (patient_tokens (map concept_id ?E) (map event_date ?E))"
  let ?ids' = "map ?f (patient_tokens (map (\<lambda>row. concept_id (fst row)) ?G)
      (map (\<lambda>row. event_date (fst row)) ?G))"
  from process_patient_data_rows [OF lab, where data = data] obtain r where
    run: "process_patient_data data starts mace = Inr r"
    and v: "vocab_pkl r = ?V"
    and m: "sample_id_to_index r = zip (map Some ?keys) [0 ..< card ?P]"
    and rowsP: "\<forall>i < card ?P. \<exists>row rest ids.
           filter (\<lambda>row. person_id (fst row) = ?keys ! i) (merged_data data labels) = row # rest
         \<and> token_ids (create_vocabulary (prepare_data data))
               (patient_tokens (map (\<lambda>r. concept_id (fst r)) (row # rest))
                  (map (\<lambda>r. event_date (fst r)) (row # rest))) = Inr ids
         \<and> tokenize_patient_data (map (\<lambda>r. concept_id (fst r)) (row # rest))
               (map (\<lambda>r. event_date (fst r)) (row # rest))
               (create_vocabulary (prepare_data data)) = Inr (py_suffix MAX_SEQ_LENGTH ids)
         \<and> sequences_npy r ! i
               = py_suffix MAX_SEQ_LENGTH ids
                   @ replicate (MAX_SEQ_LENGTH - min (length ids) MAX_SEQ_LENGTH) 0
         \<and> lengths_npy r ! i = min (length ids) MAX_SEQ_LENGTH
         \<and> outcomes_npy r ! i = mace_12m row"
    by blast
  have G: "?G = concat (map (\<lambda>e. map (\<lambda>r. (e, Some r)) (l # ls)) ?E)"
    using rows by (rule patient_group_expanded)
  have "p \<in> person_id ` set (prepare_data data)" using pin by (simp only: prepare_data_persons)
  then have "?E \<noteq> []" by (force simp: filter_empty_conv)
  then obtain e es where E: "?E = e # es" by (cases ?E) auto
  have hdG: "\<And>row rest. ?G = row # rest \<Longrightarrow> mace_12m row = Val (snd l)"
    unfolding G E by (auto simp: mace_12m_def)
  from pin have "p \<in> set ?keys" by simp
  then obtain i where i: "i < length ?keys" and ki: "?keys ! i = p"
    unfolding in_set_conv_nth by blast
  have iN: "i < card ?P" using i by simp
  have dk: "distinct (map Some ?keys)" by (simp add: distinct_map)
  have lk: "map_of (sample_id_to_index r) (Some p) = Some i"
    using zip_index_lookup [OF dk, of i] i ki by (simp add: m)
  from rowsP iN obtain row rest where
    g: "filter (\<lambda>row. person_id (fst row) = ?keys ! i) (merged_data data labels) = row # rest"
    and o: "outcomes_npy r ! i = mace_12m row" by blast
  from g have "?G = row # rest" by (simp only: ki)
  then have "mace_12m row = Val (snd l)" by (rule hdG)
  with o have out: "outcomes_npy r ! i = Val (snd l)" by simp
  have "map fst ?G = concat (map (replicate (length (l # ls))) (map (\<lambda>x. x) ?E))"
    unfolding G by (rule map_fst_expanded [where f = "\<lambda>x. x"])
  then have fstG: "map fst ?G = concat (map (replicate (length (l # ls))) ?E)"
    by (simp only: map_ident)
  have codes: "map (\<lambda>row. concept_id (fst row)) ?G
      = concat (map (replicate (Suc ?k)) (map concept_id ?E))"
    unfolding G by (simp only: map_fst_expanded length_Cons)
  have dates: "map (\<lambda>row. event_date (fst row)) ?G
      = concat (map (replicate (Suc ?k)) (map event_date ?E))"
    unfolding G by (simp only: map_fst_expanded length_Cons)
  have ids': "?ids' = concat (map (\<lambda>t. if t = 1 \<or> t = 2 \<or> t = 3 then [t]
                                 else replicate (length (l # ls)) t) ?ids)"
    unfolding codes dates
    by (simp only: length_Cons) (rule token_ids_replicated, simp)
  have c3: "count_list ?ids' 3 = count_list ?ids 3"
    unfolding ids' by (rule count_list_concat_expand) simp
  have c2: "count_list ?ids' 2 = count_list ?ids 2"
    unfolding ids' by (rule count_list_concat_expand) simp
  have t1: "token_ids (vocab_pkl r)
          (patient_tokens (map concept_id ?E) (map event_date ?E)) = Inr ?ids"
    unfolding v by (rule token_ids_built)
  have t2: "token_ids (vocab_pkl r)
          (patient_tokens (map (\<lambda>row. concept_id (fst row)) ?G)
             (map (\<lambda>row. event_date (fst row)) ?G)) = Inr ?ids'"
    unfolding v by (rule token_ids_built)
  have cnt: "length (filter (\<lambda>m. fst m = p) (table_rows mace)) \<le> 1
          \<longrightarrow> length (l # ls) = length (filter (\<lambda>s. fst s = p) (table_rows starts))"
  proof
    assume "length (filter (\<lambda>m. fst m = p) (table_rows mace)) \<le> 1"
    from label_rows_count [OF this, of "table_rows starts"] rows
    show "length (l # ls) = length (filter (\<lambda>s. fst s = p) (table_rows starts))"
      unfolding calculate_mace_outcomes_Inr [OF lab, symmetric] by simp
  qed
  show ?thesis
    by (intro exI conjI) (fact run lk fstG t1 t2 ids' c3 c2 out cnt)+
qed

text \<open>Person 1 of the example with two index dates: labels 1 and 0, every event row twice,
  stored label 1.\<close>

theorem duplicate_labels_replicate_events_witness:
  "1 \<in> person_id ` set example_events
   \<and> calculate_mace_outcomes duplicate_starts duplicate_mace = Inr [(1, 1), (1, 0)]
   \<and> filter (\<lambda>l. fst l = 1) [(1::int, 1::int), (1, 0)] = [(1, 1), (1, 0)]
   \<and> length (filter (\<lambda>s. fst s = 1) (table_rows duplicate_starts)) = 2
   \<and> map (\<lambda>row. concept_id (fst row))
         (merged_data example_events [(1, 1), (1, 0)]) = [10, 10, 20, 20, 30, 30]
   \<and> token_ids (create_vocabulary (prepare_data example_events))
         (patient_tokens [10, 20, 30] [0, 0, 86400]) = Inr [1, 3, 4, 5, 2, 3, 6, 2]
   \<and> token_ids (create_vocabulary (prepare_data example_events))
         (patient_tokens [10, 10, 20, 20, 30, 30] [0, 0, 0, 0, 86400, 86400])
       = Inr [1, 3, 4, 4, 5, 5, 2, 3, 6, 6, 2]
   \<and> (\<exists>r i. process_patient_data example_events duplicate_starts duplicate_mace = Inr r
          \<and> map_of (sample_id_to_index r) (Some 1) = Some i
          \<and> outcomes_npy r ! i = Val 1)"
proof -
  have p: "1 \<in> person_id ` set example_events" by (simp add: example_events_def)
  have labels: "calculate_mace_outcomes duplicate_starts duplicate_mace = Inr [(1, 1), (1, 0)]"
    by (simp add: calculate_mace_outcomes_def loc_assign_datetime_def label_frame_def
        merge_left_def duplicate_starts_def
        duplicate_mace_def days_to_mace_def first_mace_date_def index_date_def td_days_def)
  have l: "filter (\<lambda>l. fst l = 1) [(1::int, 1::int), (1, 0)] = (1, 1) # [(1, 0)]"
    by simp
  have n: "length (filter (\<lambda>s. fst s = 1) (table_rows duplicate_starts)) = 2"
    by (simp add: duplicate_starts_def)
  have prep: "prepare_data example_events = example_events"
    by (simp add: prepare_data_def example_events_def astype_int32_def)
  have merged: "map (\<lambda>row. concept_id (fst row))
         (merged_data example_events [(1, 1), (1, 0)]) = [10, 10, 20, 20, 30, 30]"
    by (simp add: merged_data_def prep merge_left_def) (simp add: example_events_def)
  have v: "create_vocabulary (prepare_data example_events) =
      [(''10'', 4), (''20'', 5), (''30'', 6),
       (''[PAD]'', 0), (''[CLS]'', 1), (''[SEP]'', 2), (''[DAY]'', 3)]"
    unfolding prep by (simp add: eval_defs)
  have t1: "token_ids (create_vocabulary (prepare_data example_events))
         (patient_tokens [10, 20, 30] [0, 0, 86400]) = Inr [1, 3, 4, 5, 2, 3, 6, 2]"
    unfolding v
    by (simp add: token_ids_def patient_tokens_def dict_get_def str_int_def str_nat.simps
        digit_char_def)
  have t2: "token_ids (create_vocabulary (prepare_data example_events))
         (patient_tokens [10, 10, 20, 20, 30, 30] [0, 0, 0, 0, 86400, 86400])
       = Inr [1, 3, 4, 4, 5, 5, 2, 3, 6, 6, 2]"
    unfolding v
    by (simp add: token_ids_def patient_tokens_def dict_get_def str_int_def str_nat.simps
        digit_char_def)
  from duplicate_labels_replicate_events [OF p labels l]
  have "\<exists>r i. process_patient_data example_events duplicate_starts duplicate_mace = Inr r
          \<and> map_of (sample_id_to_index r) (Some 1) = Some i
          \<and> outcomes_npy r ! i = Val 1"
    by auto
  with p labels n merged t1 t2 show ?thesis by simp
qed

text \<open>
  Claim C10 as stated fails when the outcome table has several rows for the patient: with two
  index-date rows and two outcome rows the labeler emits four label rows, and the event row
  is replicated four times, not twice.
\<close>

theorem duplicate_outcome_rows_counterexample:
  "length (filter (\<lambda>s. fst s = 1) [(1::int, Some (0::int)), (1, Some 0)]) = 2
   \<and> calculate_mace_outcomes \<lparr>date_dtype = Object, table_rows = [(1, Some 0), (1, Some 0)]\<rparr>
        \<lparr>date_dtype = Object, table_rows = [(1, Some 604800), (1, Some 604800)]\<rparr>
       = Inr [(1, 1), (1, 1), (1, 1), (1, 1)]
   \<and> map (\<lambda>row. concept_id (fst row))
        (merged_data [\<lparr>person_id = 1, concept_id = 10, event_date = 0\<rparr>]
           [(1, 1), (1, 1), (1, 1), (1, 1)])
       = [10, 10, 10, 10]"
  by (simp add: merged_data_def prepare_data_def astype_int32_def merge_left_def
      calculate_mace_outcomes_def loc_assign_datetime_def label_frame_def
      days_to_mace_def first_mace_date_def index_date_def td_days_def)

end
